theory Spec2Isabelle
  imports Complex_Main "HOL-Library.Char_ord" "HOL-Library.List_Lexorder"
begin

section \<open>JavaScript strings\<close>

text \<open>
  The program is \<^verbatim>\<open>lib/cli/do_update_manifest.js\<close> (\<^verbatim>\<open>jr update-manifest\<close>).
  A JavaScript string is modelled as a \<^typ>\<open>string\<close>: one \<^typ>\<open>char\<close> per UTF-16 code
  unit, for code units below 256. The white space of \<^verbatim>\<open>String.prototype.trim\<close> and of
  the regular expression class \<^verbatim>\<open>\s\<close> is, in that range, TAB, LF, VT, FF, CR, SPACE and
  NBSP.
\<close>

definition is_ws :: "char \<Rightarrow> bool" where
  "is_ws c = (c \<in> set [CHR 0x09, CHR 0x0A, CHR 0x0B, CHR 0x0C, CHR 0x0D, CHR 0x20, CHR 0xA0])"

text \<open>\<^verbatim>\<open>s.trim()\<close>\<close>

definition trim :: "string \<Rightarrow> string" where
  "trim s = rev (dropWhile is_ws (rev (dropWhile is_ws s)))"

text \<open>\<^verbatim>\<open>text.split(/\n/g)\<close>: the pieces between line feeds; never an empty array.\<close>

fun splitLines :: "string \<Rightarrow> string list" where
  "splitLines [] = [[]]"
| "splitLines (c # cs) =
     (if c = CHR 0x0A then [] # splitLines cs
      else (case splitLines cs of [] \<Rightarrow> [[c]] | l # ls \<Rightarrow> (c # l) # ls))"

text \<open>
  \<^verbatim>\<open>s.split(/\s+/g)\<close>: the pieces between maximal runs of white space. A string that
  starts (ends) with white space gives an empty first (last) piece; the empty string gives
  one empty piece.
\<close>

function splitWs :: "string \<Rightarrow> string list" where
  "splitWs [] = [[]]"
| "splitWs (c # cs) =
     (if is_ws c then [] # splitWs (dropWhile is_ws cs)
      else (case splitWs cs of [] \<Rightarrow> [[c]] | t # ts \<Rightarrow> (c # t) # ts))"
  by pat_completeness auto
termination
  by (relation "measure length") (auto simp: le_imp_less_Suc length_dropWhile_le)

text \<open>\<^verbatim>\<open>lines.join('\n')\<close>\<close>

fun joinLines :: "string list \<Rightarrow> string" where
  "joinLines [] = []"
| "joinLines [l] = l"
| "joinLines (l # m # ls) = l @ CHR 0x0A # joinLines (m # ls)"

text \<open>\<^verbatim>\<open>s.indexOf(c)\<close>: the index of the first occurrence, \<open>-1\<close> when there is none.\<close>

fun indexOf :: "char \<Rightarrow> string \<Rightarrow> int" where
  "indexOf c [] = - 1"
| "indexOf c (x # xs) =
     (if x = c then 0 else (let i = indexOf c xs in if i = - 1 then - 1 else i + 1))"

section \<open>The built-in \<^verbatim>\<open>Number\<close> on strings\<close>

text \<open>
  A JavaScript number is an IEEE 754 double: \<^verbatim>\<open>NaN\<close>, an infinity, the negative zero, or
  \<open>Num v\<close> for the finite double whose value is the rational \<open>v\<close> (\<open>Num 0\<close> is the
  positive zero).
\<close>

datatype jsnum = NaN | Num rat | NegZero | PosInfinity | NegInfinity

definition isNaN :: "jsnum \<Rightarrow> bool" where
  "isNaN n = (n = NaN)"

text \<open>
  The double nearest to the rational \<open>p / d\<close>, for \<open>d > 0\<close>: with \<open>2 ^ e \<le> p / d < 2 ^ (e + 1)\<close>
  the doubles around \<open>p / d\<close> are the multiples of \<open>2 ^ q\<close>, \<open>q = max (e - 52) (- 1074)\<close>; the
  nearest multiple is taken, the one with the even factor when two are equally near; a
  result of \<open>2 ^ 1024\<close> or more is the infinity. \<open>bitLength n\<close> is the number of binary digits
  of \<open>n\<close>.
\<close>

fun bitLength :: "nat \<Rightarrow> nat" where
  "bitLength n = (if n = 0 then 0 else Suc (bitLength (n div 2)))"

declare bitLength.simps [simp del]

definition floorLog2 :: "nat \<Rightarrow> nat \<Rightarrow> int" where
  "floorLog2 p d =
     (let k = int (bitLength p) - int (bitLength d) in
      if (if 0 \<le> k then d * 2 ^ nat k \<le> p else d \<le> p * 2 ^ nat (- k)) then k else k - 1)"

definition roundHalfEven :: "nat \<Rightarrow> nat \<Rightarrow> nat" where
  "roundHalfEven p d =
     (let f = p div d; r = p mod d in
      if 2 * r < d then f else if d < 2 * r then f + 1 else if even f then f else f + 1)"

definition toDouble :: "nat \<Rightarrow> nat \<Rightarrow> jsnum" where
  "toDouble p d =
     (if p = 0 then Num 0
      else
        let e = floorLog2 p d;
            q = max (e - 52) (- 1074)
        in if 0 \<le> q
           then (let m = roundHalfEven p (d * 2 ^ nat q) in
                 if 2 ^ 1024 \<le> m * 2 ^ nat q then PosInfinity else Num (of_nat (m * 2 ^ nat q)))
           else (let m = roundHalfEven (p * 2 ^ nat (- q)) d in
                 Num (of_nat m / 2 ^ nat (- q))))"

text \<open>
  \<^verbatim>\<open>Number(s)\<close> for a string \<open>s\<close> follows the StringNumericLiteral grammar of ECMAScript:
  surrounding white space is dropped; the empty string is \<open>0\<close>; otherwise the string is a
  binary, octal or hexadecimal integer literal (\<^verbatim>\<open>0b\<close>, \<^verbatim>\<open>0o\<close>, \<^verbatim>\<open>0x\<close>), or an optionally
  signed decimal literal (\<^verbatim>\<open>Infinity\<close>, digits with an optional fraction and exponent);
  anything else is \<^verbatim>\<open>NaN\<close>. The value is the double nearest to the mathematical value of
  the literal (ECMAScript requires that double for literals of up to 20 significant digits
  and allows it for longer ones); a minus sign negates that double, so \<^verbatim>\<open>-0\<close> is the
  negative zero.
\<close>

definition digitOf :: "char \<Rightarrow> nat option" where
  "digitOf c =
     (let n = (of_char c :: nat) in
      if 48 \<le> n \<and> n \<le> 57 then Some (n - 48)
      else if 97 \<le> n \<and> n \<le> 102 then Some (n - 87)
      else if 65 \<le> n \<and> n \<le> 70 then Some (n - 55)
      else None)"

definition isDigitIn :: "nat \<Rightarrow> char \<Rightarrow> bool" where
  "isDigitIn base c = (case digitOf c of None \<Rightarrow> False | Some d \<Rightarrow> d < base)"

definition digitsValue :: "nat \<Rightarrow> string \<Rightarrow> nat" where
  "digitsValue base ds = foldl (\<lambda>acc c. acc * base + (case digitOf c of None \<Rightarrow> 0 | Some d \<Rightarrow> d)) 0 ds"

definition allDigits :: "nat \<Rightarrow> string \<Rightarrow> bool" where
  "allDigits base ds = list_all (isDigitIn base) ds"

text \<open>The exponent part after \<^verbatim>\<open>e\<close> or \<^verbatim>\<open>E\<close>: an optionally signed, non-empty run of digits.\<close>

definition signedInteger :: "string \<Rightarrow> int option" where
  "signedInteger s =
     (case s of
        [] \<Rightarrow> None
      | c # ds \<Rightarrow>
          if c = CHR ''+'' then (if ds \<noteq> [] \<and> allDigits 10 ds then Some (int (digitsValue 10 ds)) else None)
          else if c = CHR ''-'' then (if ds \<noteq> [] \<and> allDigits 10 ds then Some (- int (digitsValue 10 ds)) else None)
          else if allDigits 10 s then Some (int (digitsValue 10 s)) else None)"

definition isExpMark :: "char \<Rightarrow> bool" where
  "isExpMark c = (c = CHR ''e'' \<or> c = CHR ''E'')"

text \<open>
  The digits before the exponent: \<^verbatim>\<open>ddd\<close>, \<^verbatim>\<open>ddd.\<close>, \<^verbatim>\<open>ddd.ddd\<close> or \<^verbatim>\<open>.ddd\<close>. The result is
  the number that all the digits spell, and the number of digits after the point.
\<close>

definition mantissa :: "string \<Rightarrow> (nat \<times> nat) option" where
  "mantissa m =
     (let ip = takeWhile (\<lambda>c. c \<noteq> CHR ''.'') m;
          fr = dropWhile (\<lambda>c. c \<noteq> CHR ''.'') m
      in case fr of
           [] \<Rightarrow> if ip \<noteq> [] \<and> allDigits 10 ip then Some (digitsValue 10 ip, 0) else None
         | _ # fd \<Rightarrow>
             if (ip \<noteq> [] \<or> fd \<noteq> []) \<and> allDigits 10 ip \<and> allDigits 10 fd
             then Some (digitsValue 10 (ip @ fd), length fd)
             else None)"

text \<open>The double for the digits \<open>n\<close> scaled by \<open>10 ^ k\<close>.\<close>

definition decimalValue :: "nat \<Rightarrow> int \<Rightarrow> jsnum" where
  "decimalValue n k = (if 0 \<le> k then toDouble (n * 10 ^ nat k) 1 else toDouble n (10 ^ nat (- k)))"

definition strUnsignedDecimalLiteral :: "string \<Rightarrow> jsnum" where
  "strUnsignedDecimalLiteral s =
     (if s = ''Infinity'' then PosInfinity
      else
        let m = takeWhile (\<lambda>c. \<not> isExpMark c) s;
            ex = dropWhile (\<lambda>c. \<not> isExpMark c) s
        in case mantissa m of
             None \<Rightarrow> NaN
           | Some (n, f) \<Rightarrow>
               (case ex of
                  [] \<Rightarrow> decimalValue n (- int f)
                | _ # ed \<Rightarrow>
                    (case signedInteger ed of
                       None \<Rightarrow> NaN
                     | Some k \<Rightarrow> decimalValue n (k - int f))))"

definition negate :: "jsnum \<Rightarrow> jsnum" where
  "negate n =
     (case n of
        NaN \<Rightarrow> NaN
      | Num v \<Rightarrow> (if v = 0 then NegZero else Num (- v))
      | NegZero \<Rightarrow> Num 0
      | PosInfinity \<Rightarrow> NegInfinity
      | NegInfinity \<Rightarrow> PosInfinity)"

definition strDecimalLiteral :: "string \<Rightarrow> jsnum" where
  "strDecimalLiteral s =
     (case s of
        [] \<Rightarrow> NaN
      | c # r \<Rightarrow>
          if c = CHR ''+'' then strUnsignedDecimalLiteral r
          else if c = CHR ''-'' then negate (strUnsignedDecimalLiteral r)
          else strUnsignedDecimalLiteral s)"

definition radixOf :: "char \<Rightarrow> nat option" where
  "radixOf c =
     (if c = CHR ''b'' \<or> c = CHR ''B'' then Some 2
      else if c = CHR ''o'' \<or> c = CHR ''O'' then Some 8
      else if c = CHR ''x'' \<or> c = CHR ''X'' then Some 16
      else None)"

definition nonDecimalIntegerLiteral :: "string \<Rightarrow> jsnum" where
  "nonDecimalIntegerLiteral s =
     (case s of
        z # p # ds \<Rightarrow>
          (if z = CHR ''0'' then
             (case radixOf p of
                None \<Rightarrow> NaN
              | Some base \<Rightarrow> if ds \<noteq> [] \<and> allDigits base ds then toDouble (digitsValue base ds) 1 else NaN)
           else NaN)
      | _ \<Rightarrow> NaN)"

definition Number :: "string \<Rightarrow> jsnum" where
  "Number s =
     (let t = trim s in
      if t = [] then Num 0
      else (case nonDecimalIntegerLiteral t of
              NaN \<Rightarrow> strDecimalLiteral t
            | n \<Rightarrow> n))"

section \<open>Data model\<close>

text \<open>
  A label value is a boolean, a number or a string. A \<^verbatim>\<open>labels\<close> object is a JavaScript
  object used as a dictionary: the map holds its own properties.
\<close>

datatype labelValue = LBool bool | LNum jsnum | LStr string

type_synonym labels = "string \<rightharpoonup> labelValue"

text \<open>
  Every repo object has a \<^verbatim>\<open>name\<close>. A manifest entry (and an entry parsed from a form) may
  carry \<^verbatim>\<open>labels\<close>; a candidate from the GitHub listing carries its \<^verbatim>\<open>archived\<close> flag and
  the other properties of the listing (\<^verbatim>\<open>id\<close>, \<^verbatim>\<open>full_name\<close>, \<^verbatim>\<open>owner\<close>, ...), of which the
  program only ever tests the truth value: \<open>otherProperties\<close> has the names of those that
  hold a truthy value.
\<close>

record named =
  name :: string

record repo = named +
  labels :: "labels option"

record candidate = named +
  archived :: bool
  otherProperties :: "string list"

text \<open>
  The errors of the run. \<open>FormatError n line\<close> is the \<^verbatim>\<open>VError\<close> thrown by
  \<^verbatim>\<open>parseReposForm\<close>: \<open>n\<close> is its \<^verbatim>\<open>info.line\<close>, and its message is
  \<^verbatim>\<open>line n is not a github/joyent repo URL: "line"\<close>.
\<close>

datatype error =
    AssertionError
  | GitHubApiError nat
  | FormatError nat string
  | EditorCancelled
  | Aborted
  | WriteError

section \<open>The form codec\<close>

definition JOYENT_REPO_BASE_URL :: string where
  "JOYENT_REPO_BASE_URL = ''https://github.com/TritonDataCenter/''"

text \<open>
  \<^verbatim>\<open>createReposForm(frontMatter, repos)\<close>: the front matter, then one commented URL per
  repo, joined by line feeds, with a final line feed. Only the name of a repo is written.
\<close>

definition createReposForm :: "string list \<Rightarrow> ('a named_scheme) list \<Rightarrow> string" where
  "createReposForm frontMatter repos =
     joinLines (frontMatter @ map (\<lambda>repo. ''# '' @ JOYENT_REPO_BASE_URL @ name repo) repos) @ [CHR 0x0A]"

text \<open>
  The value of a label token after \<^verbatim>\<open>=\<close> (lines 574--580): \<^verbatim>\<open>'true'\<close> and \<^verbatim>\<open>'false'\<close>
  become booleans, a string that \<^verbatim>\<open>Number\<close> reads becomes that number, any other string
  stays.
\<close>

definition coerceValue :: "string \<Rightarrow> labelValue" where
  "coerceValue val =
     (if val = ''true'' then LBool True
      else if val = ''false'' then LBool False
      else if \<not> isNaN (Number val) then LNum (Number val)
      else LStr val)"

text \<open>
  \<^verbatim>\<open>labels[key] = val\<close> for a boolean, number or string \<open>val\<close>. The key \<^verbatim>\<open>__proto__\<close> names
  the prototype accessor that every object inherits: assigning a primitive value to it
  changes nothing. Every other key becomes (or updates) an own property.
\<close>

definition setLabel :: "string \<Rightarrow> labelValue \<Rightarrow> labels \<Rightarrow> labels" where
  "setLabel key val ls = (if key = ''__proto__'' then ls else ls(key \<mapsto> val))"

text \<open>The body of the loop over the label tokens (lines 568--582).\<close>

definition labelToken :: "string \<Rightarrow> labels \<Rightarrow> labels" where
  "labelToken token ls =
     (let idx = indexOf (CHR ''='') token in
      if idx = - 1 then setLabel token (LBool True) ls
      else
        let key = take (nat idx) token;
            val = drop (nat (idx + 1)) token
        in setLabel key (coerceValue val) ls)"

text \<open>
  A line that starts with the base URL (lines 563--586): the rest of the line is split at
  white space, the first piece is the name, and the other pieces are label tokens, read
  only when \<open>parseLabels\<close> is set and there is at least one. \<^verbatim>\<open>split\<close> never returns an
  empty array, so the first case is never taken.
\<close>

definition parseRepoLine :: "bool \<Rightarrow> string \<Rightarrow> repo" where
  "parseRepoLine parseLabels line =
     (case splitWs (drop (length JOYENT_REPO_BASE_URL) line) of
        [] \<Rightarrow> \<lparr>name = [], labels = None\<rparr>
      | n # tokens \<Rightarrow>
          \<lparr>name = n,
           labels = (if parseLabels \<and> tokens \<noteq> []
                     then Some (foldl (\<lambda>ls token. labelToken token ls) Map.empty tokens)
                     else None)\<rparr>)"

text \<open>
  The loop of \<^verbatim>\<open>parseReposForm\<close> over \<^verbatim>\<open>lines[i]\<close>, \<open>i\<close> counting from zero, with the
  array \<open>repos\<close> built so far. The \<^verbatim>\<open>throw\<close> ends the loop with the error.
\<close>

fun parseLoop :: "bool \<Rightarrow> nat \<Rightarrow> string list \<Rightarrow> repo list \<Rightarrow> error + repo list" where
  "parseLoop parseLabels i [] repos = Inr repos"
| "parseLoop parseLabels i (l # rest) repos =
     (let line = trim l in
      case line of
        [] \<Rightarrow> parseLoop parseLabels (i + 1) rest repos
      | c # _ \<Rightarrow>
          if c = CHR ''#'' then parseLoop parseLabels (i + 1) rest repos
          else if take (length JOYENT_REPO_BASE_URL) line = JOYENT_REPO_BASE_URL
          then parseLoop parseLabels (i + 1) rest (repos @ [parseRepoLine parseLabels line])
          else Inl (FormatError (i + 1) line))"

definition parseReposForm :: "string \<Rightarrow> bool \<Rightarrow> error + repo list" where
  "parseReposForm text parseLabels = parseLoop parseLabels 0 (splitLines text) []"

text \<open>
  Editing a form: the reader of the form selects a repo by removing the comment marker
  \<^verbatim>\<open># \<close> of its line. \<open>uncommentRepoLines n text\<close> does so on every line after the first
  \<open>n\<close> lines (the front matter).
\<close>

definition uncommentLine :: "string \<Rightarrow> string" where
  "uncommentLine l = (if take 2 l = ''# '' then drop 2 l else l)"

definition uncommentRepoLines :: "nat \<Rightarrow> string \<Rightarrow> string" where
  "uncommentRepoLines n text =
     (let ls = splitLines text in joinLines (take n ls @ map uncommentLine (drop n ls)))"

text \<open>The kinds of line that \<^verbatim>\<open>parseReposForm\<close> tells apart, on the trimmed line.\<close>

definition isBlank :: "string \<Rightarrow> bool" where
  "isBlank l = (trim l = [])"

definition isComment :: "string \<Rightarrow> bool" where
  "isComment l = (case trim l of [] \<Rightarrow> False | c # _ \<Rightarrow> c = CHR ''#'')"

definition isRepoLine :: "string \<Rightarrow> bool" where
  "isRepoLine l = (take (length JOYENT_REPO_BASE_URL) (trim l) = JOYENT_REPO_BASE_URL)"

definition isInvalid :: "string \<Rightarrow> bool" where
  "isInvalid l = (\<not> isBlank l \<and> \<not> isComment l \<and> \<not> isRepoLine l)"

section \<open>The manifest and the session\<close>

record blessedLabel = named +
  labelType :: string
  labelDescription :: string

record repoCandidateSearch =
  searchType :: "string option"
  includeArchived :: bool
  searchDescription :: string

text \<open>
  The manifest as \<^verbatim>\<open>JSON.parse\<close> returns it, typed by the manifest format:
  \<open>repositories\<close> and \<open>excludedRepositories\<close> are arrays, \<open>searchType\<close> is
  \<^verbatim>\<open>repoCandidateSearch.type\<close> (\<open>None\<close> when it is not a string), \<open>defaults\<close> is
  \<^verbatim>\<open>defaults.labels\<close> with its keys in order (\<open>None\<close> when absent).
\<close>

record manifest =
  description :: string
  repositories :: "repo list"
  excludedRepositories :: "string list"
  repoCandidateSearch :: repoCandidateSearch
  blessedLabels :: "blessedLabel list"
  defaults :: "(string \<times> labelValue) list option"

text \<open>
  The pipeline's shared \<^verbatim>\<open>ctx\<close> object. A field that is not set yet is falsy or empty.
  \<open>addNewExcludedReposFlag\<close> is \<^verbatim>\<open>ctx.addNewExcludedRepos\<close> (the stage function has that
  name, too).
\<close>

record ctx =
  manifest :: manifest
  candidateRepos :: "candidate list"
  goneRepos :: "repo list"
  goneExcRepos :: "named list"
  newRepos :: "candidate list"
  addNewRepos :: bool
  remainingRepos :: "candidate list"
  addNewExcludedReposFlag :: bool

text \<open>
  What the run does to the outside, in order: a request to the GitHub API, a question on
  the terminal, a call of the editor (text, starting line, file name), a write of the
  manifest file.
\<close>

datatype prompt = EditInclusions | EditExclusions | ReEdit

datatype event =
    ListForOrg string
  | PromptYesNo "string list"
  | ConsoleNewRepos nat "string list"
  | PromptEnter prompt
  | EditInEditor string "nat option" string
  | WriteFile manifest

text \<open>
  Modelled from the spec: \<^verbatim>\<open>common.promptYesNo\<close>, \<^verbatim>\<open>common.promptEnter\<close> and
  \<^verbatim>\<open>common.editInEditor\<close> (\<^verbatim>\<open>lib/common.js\<close>), the GitHub client and the file system are not
  part of the sources; the spec gives their interfaces (a paginated listing or a failure
  with a status; yes/no with a default; Enter to continue or cancel; edited text or
  cancellation). Their answers are the parameters of a run.

  The candidate source answers with an HTTP status (\<open>Inl\<close>) or the listing.
  \<^verbatim>\<open>promptYesNo\<close> answers a string; \<^verbatim>\<open>promptEnter\<close> answers \<open>True\<close> for Enter and \<open>False\<close>
  for Ctrl+C. The editor answers with the edited text or with an error (its cancellation).
  An edit session is a list of attempts: the editor's answer to the attempt, and the
  answer to the retry question that follows a text that does not parse; a session that
  is shorter than the loop needs leaves the loop waiting. A write of the manifest file
  succeeds or fails. \<open>numberToString\<close> is the conversion of a number to a string by \<^verbatim>\<open>+\<close>.
\<close>

datatype editorReply = EditErr | EditedText string

record env =
  listForOrg :: "nat + candidate list"
  removeAnswer :: string
  removeWriteOk :: bool
  includeEnter :: bool
  includeEdits :: "(editorReply \<times> bool) list"
  includeWriteOk :: bool
  excludeEnter :: bool
  excludeEdits :: "(editorReply \<times> bool) list"
  excludeWriteOk :: bool
  numberToString :: "jsnum \<Rightarrow> string"

text \<open>
  A stage gives the events it caused and how it ended: \<open>Some (Inr ctx)\<close> when it called
  \<^verbatim>\<open>next()\<close>, \<open>Some (Inl err)\<close> when it called \<^verbatim>\<open>next(err)\<close>, \<open>None\<close> when it is still
  waiting for an answer that the session does not give.
\<close>

type_synonym 'a outcome = "event list \<times> (error + 'a) option"

subsection \<open>Objects as dictionaries\<close>

text \<open>
  \<^verbatim>\<open>categorizeRepos\<close> keeps three objects created by \<^verbatim>\<open>{}\<close> as dictionaries from names.
  Such an object has its own properties and a prototype, at first \<^verbatim>\<open>Object.prototype\<close>,
  whose properties it inherits, all of them truthy. \<open>protoObj\<close> is \<open>None\<close> as long as the
  prototype is \<^verbatim>\<open>Object.prototype\<close>.
\<close>

definition objectPrototypeKeys :: "string list" where
  "objectPrototypeKeys =
     [''constructor'', ''__defineGetter__'', ''__defineSetter__'', ''hasOwnProperty'',
      ''__lookupGetter__'', ''__lookupSetter__'', ''isPrototypeOf'', ''propertyIsEnumerable'',
      ''toString'', ''valueOf'', ''__proto__'', ''toLocaleString'']"

record 'v dict =
  own :: "string \<rightharpoonup> 'v"
  protoObj :: "'v option"

definition emptyObject :: "'v dict" where
  "emptyObject = \<lparr>own = Map.empty, protoObj = None\<rparr>"

text \<open>
  \<^verbatim>\<open>d[k] = v\<close>. The key \<^verbatim>\<open>__proto__\<close> names the prototype accessor that every object
  inherits: assigning an object to it (\<open>dictSetObject\<close>, for a repo object) makes that
  object the prototype and adds no own property; assigning a primitive value to it
  (\<open>dictSetPrimitive\<close>, for \<^verbatim>\<open>true\<close>) changes nothing. Every other key becomes (or updates)
  an own property.
\<close>

definition dictSetObject :: "string \<Rightarrow> 'v \<Rightarrow> 'v dict \<Rightarrow> 'v dict" where
  "dictSetObject k v d =
     (if k = ''__proto__'' then d\<lparr>protoObj := Some v\<rparr> else d\<lparr>own := (own d)(k \<mapsto> v)\<rparr>)"

definition dictSetPrimitive :: "string \<Rightarrow> 'v \<Rightarrow> 'v dict \<Rightarrow> 'v dict" where
  "dictSetPrimitive k v d = (if k = ''__proto__'' then d else d\<lparr>own := (own d)(k \<mapsto> v)\<rparr>)"

text \<open>
  The truth value of \<^verbatim>\<open>d[k]\<close> when every stored value is truthy (a repo object or
  \<^verbatim>\<open>true\<close>): \<^verbatim>\<open>d['__proto__']\<close> is the prototype, an object; an own property is truthy;
  every other key is looked up in the prototype, where \<open>propTruthy p k\<close> is the truth value
  of \<^verbatim>\<open>p[k]\<close> for a repo object \<open>p\<close> that has become the prototype.
\<close>

definition dictTruthy :: "('v \<Rightarrow> string \<Rightarrow> bool) \<Rightarrow> 'v dict \<Rightarrow> string \<Rightarrow> bool" where
  "dictTruthy propTruthy d k =
     (k = ''__proto__'' \<or> own d k \<noteq> None
      \<or> (case protoObj d of None \<Rightarrow> k \<in> set objectPrototypeKeys | Some p \<Rightarrow> propTruthy p k))"

text \<open>
  The truth value of \<^verbatim>\<open>repo[k]\<close> for a manifest entry and for a candidate of the listing:
  the own properties of the object (a name is truthy when it is not empty, a \<^verbatim>\<open>labels\<close>
  object is truthy), then the properties of \<^verbatim>\<open>Object.prototype\<close>.
\<close>

definition repoProperty :: "repo \<Rightarrow> string \<Rightarrow> bool" where
  "repoProperty r k =
     (if k = ''name'' then name r \<noteq> []
      else if k = ''labels'' then labels r \<noteq> None
      else k \<in> set objectPrototypeKeys)"

definition candidateProperty :: "candidate \<Rightarrow> string \<Rightarrow> bool" where
  "candidateProperty r k =
     (if k = ''name'' then name r \<noteq> []
      else if k = ''archived'' then archived r
      else k \<in> set (otherProperties r) \<or> k \<in> set objectPrototypeKeys)"

subsection \<open>Reconciliation\<close>

text \<open>
  \<^verbatim>\<open>fetchCandidateRepos\<close>: the assertion on \<^verbatim>\<open>repoCandidateSearch.type\<close>, the listing,
  and the removal of archived repos unless \<^verbatim>\<open>includeArchived\<close>. The debug cache path is
  \<^verbatim>\<open>null\<close>, so the cache branch is never taken and \<^verbatim>\<open>cacheIt\<close> and \<^verbatim>\<open>loadCache\<close> do nothing.
\<close>

definition fetchCandidateRepos :: "env \<Rightarrow> ctx \<Rightarrow> ctx outcome" where
  "fetchCandidateRepos e c =
     (case searchType (repoCandidateSearch (manifest c)) of
        None \<Rightarrow> ([], Some (Inl AssertionError))
      | Some ty \<Rightarrow>
          (case listForOrg e of
             Inl status \<Rightarrow> ([ListForOrg ty], Some (Inl (GitHubApiError status)))
           | Inr repos \<Rightarrow>
               ([ListForOrg ty],
                Some (Inr (c\<lparr>candidateRepos :=
                  (if \<not> includeArchived (repoCandidateSearch (manifest c))
                   then filter (\<lambda>repo. \<not> archived repo) repos
                   else repos)\<rparr>)))))"

definition categorizeRepos :: "ctx \<Rightarrow> ctx outcome" where
  "categorizeRepos c =
     (let repoFromName =
            foldl (\<lambda>d repo. dictSetObject (name repo) repo d) emptyObject
              (repositories (manifest c));
          excRepoFromName =
            foldl (\<lambda>d n. dictSetPrimitive n True d) emptyObject
              (excludedRepositories (manifest c));
          candidateRepoFromName =
            foldl (\<lambda>d repo. dictSetObject (name repo) repo d) emptyObject (candidateRepos c)
      in ([], Some (Inr (c
           \<lparr>goneRepos :=
              filter (\<lambda>repo. \<not> dictTruthy candidateProperty candidateRepoFromName (name repo))
                (repositories (manifest c)),
            goneExcRepos :=
              map (\<lambda>n. \<lparr>name = n\<rparr>)
                (filter (\<lambda>n. \<not> dictTruthy candidateProperty candidateRepoFromName n)
                  (excludedRepositories (manifest c))),
            newRepos :=
              filter (\<lambda>repo. \<not> dictTruthy repoProperty repoFromName (name repo)
                             \<and> \<not> dictTruthy (\<lambda>v k. False) excRepoFromName (name repo))
                (candidateRepos c)\<rparr>))))"

subsection \<open>The removal stage\<close>

text \<open>\<^verbatim>\<open>saveManifest\<close>: the write of the file; its error ends the pipeline.\<close>

definition saveManifest :: "manifest \<Rightarrow> bool \<Rightarrow> ctx \<Rightarrow> ctx outcome" where
  "saveManifest m ok c = ([WriteFile m], Some (if ok then Inr c else Inl WriteError))"

definition removeGoneRepos :: "env \<Rightarrow> ctx \<Rightarrow> ctx outcome" where
  "removeGoneRepos e c =
     (let repos = map name (goneRepos c) @ map name (goneExcRepos c) in
      if length repos = 0 then ([], Some (Inr c))
      else if removeAnswer e \<noteq> ''y'' then ([PromptYesNo repos], Some (Inr c))
      else
        let goneRepoNames = set (map name (goneRepos c));
            goneExcRepoNames = set (map name (goneExcRepos c));
            m = (manifest c)
              \<lparr>repositories := filter (\<lambda>r. name r \<notin> goneRepoNames) (repositories (manifest c)),
               excludedRepositories :=
                 filter (\<lambda>n. n \<notin> goneExcRepoNames) (excludedRepositories (manifest c))\<rparr>
        in (case saveManifest m (removeWriteOk e) (c\<lparr>manifest := m\<rparr>) of
              (ev, r) \<Rightarrow> (PromptYesNo repos # ev, r)))"

subsection \<open>The edit and retry loop\<close>

text \<open>
  \<^verbatim>\<open>editAttempt\<close> inside \<^verbatim>\<open>editReposInEditor\<close>, with its variables \<open>text\<close> and
  \<open>editLine\<close>. Each attempt calls the editor. An editor error ends the loop with that
  error. A text that parses ends it with the repos. For a text that does not parse, the
  retry question is asked: Ctrl+C ends the loop with \<^verbatim>\<open>cb(true)\<close>, Enter starts the next
  attempt on the edited text, at the line of the error when the error has one.
\<close>

fun editAttempt ::
  "bool \<Rightarrow> string \<Rightarrow> string \<Rightarrow> nat option \<Rightarrow> (editorReply \<times> bool) list \<Rightarrow> (repo list) outcome"
where
  "editAttempt parseLabels filename text editLine [] =
     ([EditInEditor text editLine filename], None)"
| "editAttempt parseLabels filename text editLine ((reply, retry) # script) =
     (case reply of
        EditErr \<Rightarrow> ([EditInEditor text editLine filename], Some (Inl EditorCancelled))
      | EditedText editedText \<Rightarrow>
          (case parseReposForm editedText parseLabels of
             Inr repos \<Rightarrow> ([EditInEditor text editLine filename], Some (Inr repos))
           | Inl parseErr \<Rightarrow>
               if \<not> retry
               then ([EditInEditor text editLine filename, PromptEnter ReEdit], Some (Inl Aborted))
               else
                 let errLine = (case parseErr of FormatError n _ \<Rightarrow> n | _ \<Rightarrow> 0);
                     editLine' = (if errLine \<noteq> 0 then Some errLine else None)
                 in (case editAttempt parseLabels filename editedText editLine' script of
                       (ev, r) \<Rightarrow>
                         (EditInEditor text editLine filename # PromptEnter ReEdit # ev, r))))"

definition editReposInEditor ::
  "string list \<Rightarrow> string \<Rightarrow> ('a named_scheme) list \<Rightarrow> bool \<Rightarrow> (editorReply \<times> bool) list
     \<Rightarrow> (repo list) outcome"
where
  "editReposInEditor frontMatter editFilename repos parseLabels script =
     (let editLine = length frontMatter + 1;
          text = createReposForm frontMatter repos
      in editAttempt parseLabels editFilename text (Some editLine) script)"

subsection \<open>The inclusion stage\<close>

definition confirmAddNewRepos :: "env \<Rightarrow> ctx \<Rightarrow> ctx outcome" where
  "confirmAddNewRepos e c =
     (if length (newRepos c) = 0 then ([], Some (Inr (c\<lparr>addNewRepos := False\<rparr>)))
      else
        let reposRepr =
              (if length (newRepos c) \<ge> 10 then map name (take 9 (newRepos c)) @ [''...'']
               else map name (newRepos c))
        in ([ConsoleNewRepos (length (newRepos c)) reposRepr, PromptEnter EditInclusions],
            Some (Inr (if \<not> includeEnter e then c\<lparr>addNewRepos := False\<rparr>
                       else c\<lparr>addNewRepos := True, remainingRepos := newRepos c\<rparr>))))"

text \<open>The value of a label as \<^verbatim>\<open>'=' + v\<close> writes it.\<close>

definition labelText :: "(jsnum \<Rightarrow> string) \<Rightarrow> labelValue \<Rightarrow> string" where
  "labelText toStr v =
     (case v of LBool b \<Rightarrow> (if b then ''true'' else ''false'') | LNum n \<Rightarrow> toStr n | LStr s \<Rightarrow> s)"

definition includeFrontMatter :: "(jsnum \<Rightarrow> string) \<Rightarrow> manifest \<Rightarrow> string list" where
  "includeFrontMatter toStr m =
     [''# Uncomment any repos that should be *included* as relevant'',
      ''# for this manifest.'',
      ''#'',
      ''# Optionally you may include a space-separate set of labels after'',
      ''# a repo to label it (KEY=VALUE or KEY for a bool), e.g.:'',
      ''#     https://github.com/TritonDataCenter/sdc-imgapi tritonservice=imgapi vm'',
      ''#     https://github.com/TritonDataCenter/triton-cmon-agent tritonservice=cmon-agent agent'']
     @ (case defaults m of
          None \<Rightarrow> []
        | Some dl \<Rightarrow>
            [''#'', ''# Default labels:'']
            @ map (\<lambda>(k, v). if v = LBool True then ''# - '' @ k
                             else ''# - '' @ k @ ''='' @ labelText toStr v) dl)
     @ (if length (blessedLabels m) \<noteq> 0
        then [''#'', ''# Blessed labels:'']
             @ map (\<lambda>lbl. if labelType lbl = ''boolean''
                           then ''# - '' @ name lbl @ '' - '' @ labelDescription lbl
                           else ''# - '' @ name lbl @ ''=<'' @ labelType lbl @ ''> - ''
                                @ labelDescription lbl)
                 (blessedLabels m)
        else [])
     @ [[]]"

text \<open>
  Modelled from the spec: \<^verbatim>\<open>tabula.sortArrayOfObjects(repositories, ['name'])\<close> is a
  library call whose code is not part of the sources; the spec has the combined set
  ``re-sorted by name''. Here it is a stable sort on the name, names ordered by code units.
\<close>

definition sortArrayOfObjects :: "repo list \<Rightarrow> repo list" where
  "sortArrayOfObjects repos = sort_key name repos"

definition addNewIncludedRepos :: "env \<Rightarrow> ctx \<Rightarrow> ctx outcome" where
  "addNewIncludedRepos e c =
     (if \<not> addNewRepos c then ([], Some (Inr c))
      else
        (case editReposInEditor (includeFrontMatter (numberToString e) (manifest c))
                ''newIncludeRepos'' (remainingRepos c) True (includeEdits e) of
           (ev, None) \<Rightarrow> (ev, None)
         | (ev, Some (Inl err)) \<Rightarrow> (ev, Some (Inl err))
         | (ev, Some (Inr repos)) \<Rightarrow>
             if length repos = 0 then (ev, Some (Inr c))
             else
               let m = (manifest c)
                     \<lparr>repositories := sortArrayOfObjects (repositories (manifest c) @ repos)\<rparr>;
                   addedNames = set (map name repos);
                   remaining = filter (\<lambda>r. name r \<notin> addedNames) (remainingRepos c)
               in (case saveManifest m (includeWriteOk e)
                          (c\<lparr>manifest := m, remainingRepos := remaining\<rparr>) of
                     (ev', r) \<Rightarrow> (ev @ ev', r))))"

subsection \<open>The exclusion stage\<close>

definition confirmAddNewExcludedRepos :: "env \<Rightarrow> ctx \<Rightarrow> ctx outcome" where
  "confirmAddNewExcludedRepos e c =
     (if \<not> addNewRepos c \<or> length (remainingRepos c) = 0
      then ([], Some (Inr (c\<lparr>addNewExcludedReposFlag := False\<rparr>)))
      else ([PromptEnter EditExclusions],
            Some (Inr (if \<not> excludeEnter e then c\<lparr>addNewExcludedReposFlag := False\<rparr>
                       else c\<lparr>addNewExcludedReposFlag := True\<rparr>))))"

definition excludeFrontMatter :: "string list" where
  "excludeFrontMatter =
     [''# Uncomment any repos that should be *excluded* from this manifest'',
      ''# (they will be noted in the '' @ [CHR 0x22] @ ''excludedRepositories'' @ [CHR 0x22] @ '' field).'',
      []]"

definition addNewExcludedRepos :: "env \<Rightarrow> ctx \<Rightarrow> ctx outcome" where
  "addNewExcludedRepos e c =
     (if \<not> addNewExcludedReposFlag c then ([], Some (Inr c))
      else
        (case editReposInEditor excludeFrontMatter ''newExcludeRepos'' (remainingRepos c)
                False (excludeEdits e) of
           (ev, None) \<Rightarrow> (ev, None)
         | (ev, Some (Inl err)) \<Rightarrow> (ev, Some (Inl err))
         | (ev, Some (Inr repos)) \<Rightarrow>
             if length repos = 0 then (ev, Some (Inr c))
             else
               let m = (manifest c)
                     \<lparr>excludedRepositories :=
                        sort (excludedRepositories (manifest c) @ map name repos)\<rparr>
               in (case saveManifest m (excludeWriteOk e) (c\<lparr>manifest := m\<rparr>) of
                     (ev', r) \<Rightarrow> (ev @ ev', r))))"

subsection \<open>The pipeline\<close>

text \<open>
  \<^verbatim>\<open>vasync.pipeline\<close>: the stages run in order on the shared \<open>ctx\<close>; the first error
  ends the run and is the run's result.
\<close>

fun pipeline :: "(ctx \<Rightarrow> ctx outcome) list \<Rightarrow> ctx \<Rightarrow> ctx outcome" where
  "pipeline [] c = ([], Some (Inr c))"
| "pipeline (f # fs) c =
     (case f c of
        (ev, Some (Inr c')) \<Rightarrow> (case pipeline fs c' of (ev', r) \<Rightarrow> (ev @ ev', r))
      | (ev, r) \<Rightarrow> (ev, r))"

definition initialCtx :: "manifest \<Rightarrow> ctx" where
  "initialCtx m =
     \<lparr>manifest = m, candidateRepos = [], goneRepos = [], goneExcRepos = [], newRepos = [],
      addNewRepos = False, remainingRepos = [], addNewExcludedReposFlag = False\<rparr>"

text \<open>
  The run starts when the arguments are checked and \<^verbatim>\<open>readManifest\<close> has read and parsed
  the file: the manifest is the input. The stages after reconciliation are the curation
  of the manifest.
\<close>

definition curationStages :: "env \<Rightarrow> (ctx \<Rightarrow> ctx outcome) list" where
  "curationStages e =
     [removeGoneRepos e, confirmAddNewRepos e, addNewIncludedRepos e,
      confirmAddNewExcludedRepos e, addNewExcludedRepos e]"

definition do_update_manifest :: "env \<Rightarrow> manifest \<Rightarrow> ctx outcome" where
  "do_update_manifest e m =
     pipeline (fetchCandidateRepos e # categorizeRepos # curationStages e) (initialCtx m)"

subsection \<open>Notions used in the statements\<close>

text \<open>The manifests written to the file, in order.\<close>

definition written :: "event list \<Rightarrow> manifest list" where
  "written evs = concat (map (\<lambda>ev. case ev of WriteFile m \<Rightarrow> [m] | _ \<Rightarrow> []) evs)"

text \<open>
  The invariant of the manifest: names are unique in \<open>repositories\<close> and in
  \<open>excludedRepositories\<close>, and no name is in both.
\<close>

definition manifestInvariant :: "manifest \<Rightarrow> bool" where
  "manifestInvariant m =
     (distinct (map name (repositories m)) \<and> distinct (excludedRepositories m)
      \<and> set (map name (repositories m)) \<inter> set (excludedRepositories m) = {})"

text \<open>
  How an edit session ends, whatever the first text, line and file name are (the answer
  of the loop does not depend on them); and the repos that it hands to its caller, when it
  ends with a text that parses.
\<close>

definition editAnswer :: "bool \<Rightarrow> (editorReply \<times> bool) list \<Rightarrow> (error + repo list) option" where
  "editAnswer parseLabels script = snd (editAttempt parseLabels [] [] None script)"

definition accepted :: "bool \<Rightarrow> (editorReply \<times> bool) list \<Rightarrow> repo list option" where
  "accepted parseLabels script =
     (case editAnswer parseLabels script of
        Some (Inr repos) \<Rightarrow> Some repos
      | _ \<Rightarrow> None)"

text \<open>The number of editor calls among the events.\<close>

definition editorCalls :: "event list \<Rightarrow> nat" where
  "editorCalls evs = length (filter (\<lambda>ev. case ev of EditInEditor _ _ _ \<Rightarrow> True | _ \<Rightarrow> False) evs)"

text \<open>
  The context in which the inclusion stage and the exclusion stage start, when the run
  gets there: the result of the stages before.
\<close>

definition atInclusionStage :: "env \<Rightarrow> manifest \<Rightarrow> ctx option" where
  "atInclusionStage e m =
     (case snd (pipeline [fetchCandidateRepos e, categorizeRepos, removeGoneRepos e,
                          confirmAddNewRepos e] (initialCtx m)) of
        Some (Inr c) \<Rightarrow> Some c
      | _ \<Rightarrow> None)"

definition atExclusionStage :: "env \<Rightarrow> manifest \<Rightarrow> ctx option" where
  "atExclusionStage e m =
     (case snd (pipeline [fetchCandidateRepos e, categorizeRepos, removeGoneRepos e,
                          confirmAddNewRepos e, addNewIncludedRepos e,
                          confirmAddNewExcludedRepos e] (initialCtx m)) of
        Some (Inr c) \<Rightarrow> Some c
      | _ \<Rightarrow> None)"

text \<open>
  Names that can be added to a manifest: pairwise different, and none of them in
  \<open>repositories\<close> or in \<open>excludedRepositories\<close> of that manifest.
\<close>

definition freshNames :: "string list \<Rightarrow> manifest \<Rightarrow> bool" where
  "freshNames ns m =
     (distinct ns \<and>
      set ns \<inter> (set (map name (repositories m)) \<union> set (excludedRepositories m)) = {})"

text \<open>
  The reading of a label token in the words of the specification, to be compared with
  \<open>labelToken\<close> of the code: the key is the token up to its first \<^verbatim>\<open>=\<close>; the value is
  \<open>true\<close> for a token without \<^verbatim>\<open>=\<close>, and otherwise what follows the first \<^verbatim>\<open>=\<close>: a
  boolean for \<^verbatim>\<open>true\<close> and \<^verbatim>\<open>false\<close>, the number when the string parses as a number, and
  the string itself otherwise.
\<close>

definition tokenKey :: "string \<Rightarrow> string" where
  "tokenKey t = takeWhile (\<lambda>c. c \<noteq> CHR ''='') t"

definition tokenValue :: "string \<Rightarrow> labelValue" where
  "tokenValue t =
     (if CHR ''='' \<notin> set t then LBool True
      else
        let v = tl (dropWhile (\<lambda>c. c \<noteq> CHR ''='') t) in
        if v = ''true'' then LBool True
        else if v = ''false'' then LBool False
        else if Number v \<noteq> NaN then LNum (Number v)
        else LStr v)"

text \<open>
  The shape of a repo line, for the statements: white space, the base URL, the name, label
  tokens each after a run of white space, white space; no line feed. \<open>sts\<close> has each
  token with the white space before it. Every line without line feed that, trimmed, starts
  with the base URL has this shape.
\<close>

definition repoLine :: "string \<Rightarrow> string \<Rightarrow> (string \<times> string) list \<Rightarrow> string \<Rightarrow> string" where
  "repoLine w0 n sts w1 =
     w0 @ JOYENT_REPO_BASE_URL @ n @ concat (map (\<lambda>(s, t). s @ t) sts) @ w1"

definition wellFormedLine :: "string \<Rightarrow> string \<Rightarrow> (string \<times> string) list \<Rightarrow> string \<Rightarrow> bool" where
  "wellFormedLine w0 n sts w1 =
     (list_all is_ws w0 \<and> list_all is_ws w1 \<and> list_all (\<lambda>c. \<not> is_ws c) n \<and>
      list_all (\<lambda>(s, t). s \<noteq> [] \<and> list_all is_ws s \<and> t \<noteq> [] \<and> list_all (\<lambda>c. \<not> is_ws c) t) sts \<and>
      CHR 0x0A \<notin> set (repoLine w0 n sts w1))"

subsection \<open>An example session\<close>

text \<open>
  A manifest that tracks \<open>a\<close> and \<open>b\<close> and excludes \<open>x\<close>; the listing has \<open>a\<close>, \<open>c\<close>, the
  archived \<open>d\<close>, and \<open>e\<close>. So \<open>b\<close> and \<open>x\<close> are gone, and \<open>c\<close> and \<open>e\<close> are new. The user
  confirms the removal, includes \<open>c\<close> with two labels after a first text that does not
  parse, and excludes \<open>e\<close>.
\<close>

definition exampleManifest :: manifest where
  "exampleManifest =
     \<lparr>description = ''example'',
      repositories = [\<lparr>name = ''a'', labels = None\<rparr>, \<lparr>name = ''b'', labels = None\<rparr>],
      excludedRepositories = [''x''],
      repoCandidateSearch =
        \<lparr>searchType = Some ''public'', includeArchived = False, searchDescription = ''all''\<rparr>,
      blessedLabels = [],
      defaults = None\<rparr>"

definition exampleCandidates :: "candidate list" where
  "exampleCandidates =
     [\<lparr>name = ''a'', archived = False, otherProperties = []\<rparr>, \<lparr>name = ''c'', archived = False, otherProperties = []\<rparr>,
      \<lparr>name = ''d'', archived = True, otherProperties = []\<rparr>, \<lparr>name = ''e'', archived = False, otherProperties = []\<rparr>]"

definition exampleEnv :: env where
  "exampleEnv =
     \<lparr>listForOrg = Inr exampleCandidates,
      removeAnswer = ''y'',
      removeWriteOk = True,
      includeEnter = True,
      includeEdits =
        [(EditedText ''not-a-valid-url'', True),
         (EditedText (JOYENT_REPO_BASE_URL @ ''c x=1 y''), True)],
      includeWriteOk = True,
      excludeEnter = True,
      excludeEdits = [(EditedText (JOYENT_REPO_BASE_URL @ ''e''), True)],
      excludeWriteOk = True,
      numberToString = (\<lambda>n. ''0'')\<rparr>"

section \<open>Facts about the string functions\<close>


lemma indexOf_ge: "- 1 \<le> indexOf c xs"
  by (induction xs) (auto simp: Let_def)

lemma indexOf_absent: "c \<notin> set xs \<Longrightarrow> indexOf c xs = - 1"
  by (induction xs) (auto simp: Let_def)

lemma indexOf_first: "c \<notin> set xs \<Longrightarrow> indexOf c (xs @ c # ys) = int (length xs)"
  by (induction xs) (auto simp: Let_def)

lemma splitLines_single: "CHR 0x0A \<notin> set s \<Longrightarrow> splitLines s = [s]"
  by (induction s) auto

lemma splitLines_not_Nil: "splitLines s \<noteq> []"
  by (induction s) (auto split: list.splits)

lemma splitWs_not_Nil: "splitWs s \<noteq> []"
  by (induction s rule: splitWs.induct) (auto split: list.splits)

lemma splitWs_single: "\<forall>c\<in>set s. \<not> is_ws c \<Longrightarrow> splitWs s = [s]"
  by (induction s) auto

lemma splitWs_append:
  "\<forall>c\<in>set a. \<not> is_ws c \<Longrightarrow> is_ws w \<Longrightarrow> splitWs (a @ w # b) = a # splitWs (dropWhile is_ws b)"
  by (induction a) auto

lemma trim_id: "\<not> is_ws x \<Longrightarrow> \<not> is_ws (last (x # s)) \<Longrightarrow> trim (x # s) = x # s"
proof -
  assume a: "\<not> is_ws x" and b: "\<not> is_ws (last (x # s))"
  have "rev (x # s) = last (x # s) # rev (butlast (x # s))"
    by (metis append_butlast_last_id list.distinct(1) rev.simps(2) rev_rev_ident rev_swap)
  then have "dropWhile is_ws (rev (x # s)) = rev (x # s)"
    using b by (metis dropWhile.simps(2))
  then show ?thesis using a by (simp add: trim_def)
qed

section \<open>Facts about the form codec\<close>


lemma Number_empty: "Number [] = Num 0"
  by (simp add: Number_def trim_def)

lemma coerceValue_empty: "coerceValue [] = LNum (Num 0)"
  by (simp add: coerceValue_def Number_empty isNaN_def)

lemma labelToken_no_eq: "CHR ''='' \<notin> set token \<Longrightarrow> labelToken token ls = setLabel token (LBool True) ls"
  by (simp add: labelToken_def indexOf_absent)

lemma labelToken_eq:
  assumes "CHR ''='' \<notin> set key"
  shows "labelToken (key @ CHR ''='' # val) ls = setLabel key (coerceValue val) ls"
proof -
  have "nat (int (length key) + 1) = Suc (length key)" by simp
  then show ?thesis
    by (simp add: labelToken_def indexOf_first[OF assms] Let_def)
qed

lemmas number_eval =
  Number_def trim_def is_ws_def nonDecimalIntegerLiteral_def strDecimalLiteral_def
  strUnsignedDecimalLiteral_def isExpMark_def mantissa_def allDigits_def isDigitIn_def
  digitOf_def digitsValue_def radixOf_def signedInteger_def negate_def isNaN_def
  decimalValue_def toDouble_def floorLog2_def roundHalfEven_def bitLength.simps


lemmas label_eval = labelToken_def setLabel_def coerceValue_def Let_def

section \<open>Facts about the parse loop\<close>


lemma repo_line_not_comment: "isRepoLine l \<Longrightarrow> \<not> isComment l \<and> \<not> isBlank l"
  by (auto simp: isRepoLine_def isComment_def isBlank_def JOYENT_REPO_BASE_URL_def split: list.splits)

lemma parseLoop_valid:
  "\<forall>l\<in>set ls. \<not> isInvalid l \<Longrightarrow>
   parseLoop pl i ls acc = Inr (acc @ map (\<lambda>l. parseRepoLine pl (trim l)) (filter isRepoLine ls))"
proof (induction ls arbitrary: i acc)
  case Nil
  then show ?case by simp
next
  case (Cons l ls)
  then have ih: "\<And>i acc. parseLoop pl i ls acc = Inr (acc @ map (\<lambda>l. parseRepoLine pl (trim l)) (filter isRepoLine ls))"
    by simp
  from Cons.prems have ok: "isBlank l \<or> isComment l \<or> isRepoLine l" by (auto simp: isInvalid_def)
  show ?case
  proof (cases "trim l")
    case Nil
    then have "\<not> isRepoLine l" by (auto simp: isRepoLine_def JOYENT_REPO_BASE_URL_def)
    with Nil show ?thesis by (simp add: ih)
  next
    case (Cons c cs)
    show ?thesis
    proof (cases "c = CHR ''#''")
      case True
      with Cons have "isComment l" by (simp add: isComment_def)
      then have "\<not> isRepoLine l" using repo_line_not_comment by blast
      with Cons True show ?thesis by (simp add: ih)
    next
      case False
      with Cons ok have r: "isRepoLine l" by (auto simp: isBlank_def isComment_def)
      then have "take (length JOYENT_REPO_BASE_URL) (c # cs) = JOYENT_REPO_BASE_URL"
        using Cons by (simp add: isRepoLine_def)
      with Cons False r show ?thesis by (simp add: ih)
    qed
  qed
qed

lemma parseLoop_invalid:
  "\<forall>l\<in>set good. \<not> isInvalid l \<Longrightarrow> isInvalid b \<Longrightarrow>
   parseLoop pl i (good @ b # rest) acc = Inl (FormatError (i + length good + 1) (trim b))"
proof (induction good arbitrary: i acc)
  case Nil
  then show ?case
    by (cases "trim b") (auto simp: isInvalid_def isBlank_def isComment_def isRepoLine_def)
next
  case (Cons l ls)
  then have ih: "\<And>i acc. parseLoop pl i (ls @ b # rest) acc = Inl (FormatError (i + length ls + 1) (trim b))"
    by simp
  from Cons.prems have ok: "isBlank l \<or> isComment l \<or> isRepoLine l" by (auto simp: isInvalid_def)
  show ?case
  proof (cases "trim l")
    case Nil
    then show ?thesis by (simp add: ih)
  next
    case (Cons c cs)
    show ?thesis
    proof (cases "c = CHR ''#''")
      case True
      with Cons show ?thesis by (simp add: ih)
    next
      case False
      with Cons ok have r: "isRepoLine l" by (auto simp: isBlank_def isComment_def)
      then have "take (length JOYENT_REPO_BASE_URL) (c # cs) = JOYENT_REPO_BASE_URL"
        using Cons by (simp add: isRepoLine_def)
      with Cons False r show ?thesis by (simp add: ih)
    qed
  qed
qed

section \<open>Invalid lines\<close>

text \<open>
  Claim C7, as amended. A line is invalid when, trimmed, it is not blank, does not start
  with \<^verbatim>\<open>#\<close> and does not start with the base URL. Decoding fails exactly when the text
  has an invalid line, and the error carries the 1-based number and the trimmed text of the
  first invalid line. When no line is invalid, decoding succeeds with one entry per line
  that starts with the base URL, in order: blank and comment lines cause no error and
  contribute no entry.
\<close>

theorem parse_error_at_first_invalid_line:
  "(i < length (splitLines text) \<and> isInvalid (splitLines text ! i)
      \<and> (\<forall>j<i. \<not> isInvalid (splitLines text ! j))
    \<longrightarrow> parseReposForm text parseLabels = Inl (FormatError (i + 1) (trim (splitLines text ! i)))) \<and>
   ((\<forall>l\<in>set (splitLines text). \<not> isInvalid l)
    \<longrightarrow> parseReposForm text parseLabels =
          Inr (map (\<lambda>l. parseRepoLine parseLabels (trim l)) (filter isRepoLine (splitLines text))))"
proof (intro conjI impI)
  let ?ls = "splitLines text"
  assume a: "i < length ?ls \<and> isInvalid (?ls ! i) \<and> (\<forall>j<i. \<not> isInvalid (?ls ! j))"
  then have split: "?ls = take i ?ls @ ?ls ! i # drop (Suc i) ?ls"
    by (simp add: id_take_nth_drop)
  have good: "\<forall>l\<in>set (take i ?ls). \<not> isInvalid l"
    using a by (auto simp: in_set_conv_nth)
  have "parseLoop parseLabels 0 (take i ?ls @ ?ls ! i # drop (Suc i) ?ls) [] =
      Inl (FormatError (0 + length (take i ?ls) + 1) (trim (?ls ! i)))"
    using good a by (intro parseLoop_invalid) auto
  moreover have "length (take i ?ls) = i" using a by simp
  ultimately show "parseReposForm text parseLabels = Inl (FormatError (i + 1) (trim (?ls ! i)))"
    unfolding parseReposForm_def using split by simp
next
  assume "\<forall>l\<in>set (splitLines text). \<not> isInvalid l"
  then show "parseReposForm text parseLabels =
          Inr (map (\<lambda>l. parseRepoLine parseLabels (trim l)) (filter isRepoLine (splitLines text)))"
    unfolding parseReposForm_def by (simp add: parseLoop_valid)
qed

text \<open>Evaluation of the line predicates on concrete texts.\<close>

lemmas line_eval = isInvalid_def isBlank_def isComment_def isRepoLine_def trim_def is_ws_def
  JOYENT_REPO_BASE_URL_def parseReposForm_def

theorem parse_error_at_first_invalid_line_witness:
  "parseReposForm (''# pick'' @ [CHR 0x0A] @ '' '' @ [CHR 0x0A] @ ''not-a-valid-url'' @ [CHR 0x0A] @ ''junk'') True
     = Inl (FormatError 3 ''not-a-valid-url'') \<and>
   parseReposForm (''# pick'' @ [CHR 0x0A] @ [CHR 0x0A] @ ''https://github.com/TritonDataCenter/mahi'') False
     = Inr [\<lparr>name = ''mahi'', labels = None\<rparr>]"
  using parse_error_at_first_invalid_line
      [of 2 "''# pick'' @ [CHR 0x0A] @ '' '' @ [CHR 0x0A] @ ''not-a-valid-url'' @ [CHR 0x0A] @ ''junk''" True]
    parse_error_at_first_invalid_line
      [of 0 "''# pick'' @ [CHR 0x0A] @ [CHR 0x0A] @ ''https://github.com/TritonDataCenter/mahi''" False]
  by (simp add: line_eval nth_Cons' parseRepoLine_def)

text \<open>
  The claim as stated fails for an invalid line that is not the first one: in the text
  of the two lines \<^verbatim>\<open>x\<close> and \<^verbatim>\<open>y\<close>, line 2 is invalid, and the error is about line 1.
\<close>

theorem later_invalid_line_not_reported:
  "isInvalid (splitLines (''x'' @ [CHR 0x0A] @ ''y'') ! 1) \<and>
   trim (splitLines (''x'' @ [CHR 0x0A] @ ''y'') ! 1) = ''y'' \<and>
   parseReposForm (''x'' @ [CHR 0x0A] @ ''y'') False = Inl (FormatError 1 ''x'') \<and>
   parseReposForm (''x'' @ [CHR 0x0A] @ ''y'') False \<noteq> Inl (FormatError 2 ''y'')"
  by (simp add: line_eval)



section \<open>Repo lines and label tokens\<close>

lemma token_no_eq:
  "CHR ''='' \<notin> set t \<Longrightarrow> tokenKey t = t \<and> tokenValue t = LBool True"
  by (auto simp: tokenKey_def tokenValue_def takeWhile_eq_all_conv)

lemma token_eq:
  assumes "CHR ''='' \<notin> set key"
  shows "tokenKey (key @ CHR ''='' # val) = key"
    and "tokenValue (key @ CHR ''='' # val) =
      (if val = ''true'' then LBool True
       else if val = ''false'' then LBool False
       else if Number val \<noteq> NaN then LNum (Number val)
       else LStr val)"
proof -
  have a: "\<forall>c\<in>set key. c \<noteq> CHR ''=''" using assms by auto
  then show "tokenKey (key @ CHR ''='' # val) = key"
    by (simp add: tokenKey_def takeWhile_tail)
  from a have "dropWhile (\<lambda>c. c \<noteq> CHR ''='') (key @ CHR ''='' # val) = CHR ''='' # val"
    by (simp add: dropWhile_append3)
  then show "tokenValue (key @ CHR ''='' # val) =
      (if val = ''true'' then LBool True
       else if val = ''false'' then LBool False
       else if Number val \<noteq> NaN then LNum (Number val)
       else LStr val)"
    by (simp add: tokenValue_def Let_def)
qed

text \<open>The loop body is the assignment of the token's value to the token's key.\<close>

lemma labelToken_key_value: "labelToken t ls = setLabel (tokenKey t) (tokenValue t) ls"
proof (cases "CHR ''='' \<in> set t")
  case False
  then show ?thesis using token_no_eq [of t] by (simp add: labelToken_no_eq)
next
  case True
  then obtain key val where t: "t = key @ CHR ''='' # val" and k: "CHR ''='' \<notin> set key"
    by (meson split_list_first)
  show ?thesis
    unfolding t using token_eq [OF k, of val] labelToken_eq [OF k, of val ls]
    by (simp add: coerceValue_def isNaN_def)
qed

lemma fold_other_keys:
  "\<forall>u\<in>set post. tokenKey u \<noteq> k \<Longrightarrow> foldl (\<lambda>ls t. labelToken t ls) ls0 post k = ls0 k"
  by (induction post arbitrary: ls0) (auto simp: labelToken_key_value setLabel_def)

lemma fold_last_token:
  assumes "tokenKey t \<noteq> ''__proto__''" "\<forall>u\<in>set post. tokenKey u \<noteq> tokenKey t"
  shows "foldl (\<lambda>ls t. labelToken t ls) ls0 (pre @ t # post) (tokenKey t) = Some (tokenValue t)"
proof -
  let ?F = "\<lambda>ls t. labelToken t ls"
  have "foldl ?F ls0 (pre @ t # post) (tokenKey t) = foldl ?F (labelToken t (foldl ?F ls0 pre)) post (tokenKey t)"
    by simp
  also have "\<dots> = labelToken t (foldl ?F ls0 pre) (tokenKey t)"
    using assms(2) by (rule fold_other_keys)
  also have "\<dots> = Some (tokenValue t)"
    using assms(1) by (simp add: labelToken_key_value setLabel_def)
  finally show ?thesis .
qed

text \<open>The pieces of a repo line.\<close>

lemma splitWs_general:
  assumes "list_all (\<lambda>c. \<not> is_ws c) n"
    and "list_all (\<lambda>(s, t). s \<noteq> [] \<and> list_all is_ws s \<and> t \<noteq> [] \<and> list_all (\<lambda>c. \<not> is_ws c) t) sts"
  shows "splitWs (n @ concat (map (\<lambda>(s, t). s @ t) sts)) = n # map snd sts"
  using assms
proof (induction sts arbitrary: n)
  case Nil
  then show ?case by (simp add: splitWs_single list_all_iff)
next
  case (Cons a sts)
  obtain s t where a: "a = (s, t)" by (cases a)
  from Cons.prems a have s: "s \<noteq> []" "list_all is_ws s" and t: "t \<noteq> []" "list_all (\<lambda>c. \<not> is_ws c) t"
    and rest: "list_all (\<lambda>(s, t). s \<noteq> [] \<and> list_all is_ws s \<and> t \<noteq> [] \<and> list_all (\<lambda>c. \<not> is_ws c) t) sts"
    by auto
  obtain w s' where sw: "s = w # s'" using s by (cases s) auto
  obtain x t' where tx: "t = x # t'" using t by (cases t) auto
  let ?R = "concat (map (\<lambda>(s, t). s @ t) sts)"
  have "splitWs (n @ concat (map (\<lambda>(s, t). s @ t) (a # sts))) = splitWs (n @ w # (s' @ t @ ?R))"
    by (simp add: a sw)
  also have "\<dots> = n # splitWs (dropWhile is_ws (s' @ t @ ?R))"
    using Cons.prems(1) s sw by (intro splitWs_append) (auto simp: list_all_iff)
  also have "dropWhile is_ws (s' @ t @ ?R) = t @ ?R"
    using s t sw tx by (simp add: dropWhile_append3 list_all_iff)
  also have "splitWs (t @ ?R) = t # map snd sts"
    using Cons.IH [OF t(2) rest] .
  finally show ?case by (simp add: a)
qed

lemma trim_general:
  assumes "list_all is_ws w0" "list_all is_ws w1" "x \<noteq> []" "\<not> is_ws (hd x)" "\<not> is_ws (last x)"
  shows "trim (w0 @ x @ w1) = x"
proof -
  obtain h x' where x: "x = h # x'" using assms(3) by (cases x) auto
  have a: "dropWhile is_ws (w0 @ x @ w1) = x @ w1"
    using assms(1,4) x by (simp add: dropWhile_append3 list_all_iff)
  obtain y l where y: "x = y @ [l]" using assms(3) by (cases x rule: rev_cases) auto
  with assms(5) have "\<not> is_ws l" by simp
  then have "dropWhile is_ws (rev w1 @ rev x) = rev x"
    using assms(2) y by (simp add: dropWhile_append3 list_all_iff)
  with a show ?thesis by (simp add: trim_def)
qed

lemma repoLine_trim:
  assumes "wellFormedLine w0 n sts w1"
  shows "trim (repoLine w0 n sts w1) = JOYENT_REPO_BASE_URL @ n @ concat (map (\<lambda>(s, t). s @ t) sts)"
proof -
  let ?x = "JOYENT_REPO_BASE_URL @ n @ concat (map (\<lambda>(s, t). s @ t) sts)"
  from assms have w: "list_all is_ws w0" "list_all is_ws w1"
    and n: "list_all (\<lambda>c. \<not> is_ws c) n"
    and sts: "list_all (\<lambda>(s, t). s \<noteq> [] \<and> list_all is_ws s \<and> t \<noteq> [] \<and> list_all (\<lambda>c. \<not> is_ws c) t) sts"
    by (auto simp: wellFormedLine_def)
  have hd: "\<not> is_ws (hd ?x)" by (simp add: JOYENT_REPO_BASE_URL_def is_ws_def)
  have "\<not> is_ws (last ?x)"
  proof (cases sts rule: rev_cases)
    case Nil
    then show ?thesis using n
      by (cases n rule: rev_cases) (auto simp: JOYENT_REPO_BASE_URL_def is_ws_def)
  next
    case (snoc ys a)
    obtain s t where a: "a = (s, t)" by (cases a)
    with snoc sts have t: "t \<noteq> []" "list_all (\<lambda>c. \<not> is_ws c) t" by auto
    then obtain t' l where tl: "t = t' @ [l]" by (cases t rule: rev_cases) auto
    with t have "\<not> is_ws l" by simp
    then show ?thesis by (simp add: snoc a tl)
  qed
  with hd w have "trim (w0 @ ?x @ w1) = ?x"
    by (intro trim_general) (auto simp: JOYENT_REPO_BASE_URL_def)
  then show ?thesis by (simp add: repoLine_def)
qed

text \<open>A form of one repo line, with or without label tokens.\<close>

lemma repoLine_parse:
  assumes "wellFormedLine w0 n sts w1"
  shows "parseReposForm (repoLine w0 n sts w1) pl =
     Inr [\<lparr>name = n,
           labels = (if pl \<and> sts \<noteq> []
                     then Some (foldl (\<lambda>ls t. labelToken t ls) Map.empty (map snd sts))
                     else None)\<rparr>]"
proof -
  let ?L = "repoLine w0 n sts w1"
  let ?rest = "n @ concat (map (\<lambda>(s, t). s @ t) sts)"
  from assms have nl: "CHR 0x0A \<notin> set ?L"
    and n: "list_all (\<lambda>c. \<not> is_ws c) n"
    and sts: "list_all (\<lambda>(s, t). s \<noteq> [] \<and> list_all is_ws s \<and> t \<noteq> [] \<and> list_all (\<lambda>c. \<not> is_ws c) t) sts"
    by (auto simp: wellFormedLine_def)
  have tr: "trim ?L = JOYENT_REPO_BASE_URL @ ?rest" using assms by (rule repoLine_trim)
  have l: "JOYENT_REPO_BASE_URL @ ?rest = CHR ''h'' # tl (JOYENT_REPO_BASE_URL @ ?rest)"
    by (simp add: JOYENT_REPO_BASE_URL_def)
  have sp: "splitWs ?rest = n # map snd sts" using n sts by (rule splitWs_general)
  have pr: "parseRepoLine pl (JOYENT_REPO_BASE_URL @ ?rest) =
      \<lparr>name = n, labels = (if pl \<and> sts \<noteq> []
                     then Some (foldl (\<lambda>ls t. labelToken t ls) Map.empty (map snd sts))
                     else None)\<rparr>"
    by (simp add: parseRepoLine_def sp)
  have "parseReposForm ?L pl = Inr [parseRepoLine pl (JOYENT_REPO_BASE_URL @ ?rest)]"
    unfolding parseReposForm_def splitLines_single[OF nl]
    apply (simp add: tr Let_def)
    apply (subst (1) l)
    apply (simp add: JOYENT_REPO_BASE_URL_def)
    done
  with pr show ?thesis by simp
qed

text \<open>A form is decoded line by line.\<close>

lemma lines_no_LF: "l \<in> set (splitLines s) \<Longrightarrow> CHR 0x0A \<notin> set l"
  by (induction s arbitrary: l) (auto split: if_splits list.splits)

lemma parse_ok_no_invalid:
  assumes "parseReposForm tx pl = Inr repos"
  shows "\<forall>l\<in>set (splitLines tx). \<not> isInvalid l"
proof (rule ccontr)
  assume "\<not> (\<forall>l\<in>set (splitLines tx). \<not> isInvalid l)"
  then have "\<exists>l\<in>set (splitLines tx). isInvalid l" by simp
  from split_list_first_prop [OF this]
  obtain good b rest where sp: "splitLines tx = good @ b # rest"
    and b: "isInvalid b" and good: "\<forall>l\<in>set good. \<not> isInvalid l"
    by blast
  have "parseLoop pl 0 (good @ b # rest) [] = Inl (FormatError (0 + length good + 1) (trim b))"
    using good b by (rule parseLoop_invalid)
  with assms sp show False by (simp add: parseReposForm_def)
qed

lemma parse_one_line:
  assumes "CHR 0x0A \<notin> set l" "\<not> isInvalid l"
  shows "parseReposForm l pl = Inr (if isRepoLine l then [parseRepoLine pl (trim l)] else [])"
proof -
  have "parseLoop pl 0 [l] [] = Inr ([] @ map (\<lambda>l. parseRepoLine pl (trim l)) (filter isRepoLine [l]))"
    using assms(2) by (intro parseLoop_valid) simp
  then show ?thesis
    unfolding parseReposForm_def splitLines_single[OF assms(1)] by simp
qed

lemma parse_by_lines:
  assumes "parseReposForm tx pl = Inr repos"
  shows "repos = concat (map (\<lambda>l. case parseReposForm l pl of Inr rs \<Rightarrow> rs | Inl err \<Rightarrow> [])
                          (splitLines tx))"
proof -
  have ok: "\<forall>l\<in>set (splitLines tx). \<not> isInvalid l" using assms by (rule parse_ok_no_invalid)
  then have "parseReposForm tx pl = Inr ([] @ map (\<lambda>l. parseRepoLine pl (trim l)) (filter isRepoLine (splitLines tx)))"
    unfolding parseReposForm_def by (rule parseLoop_valid)
  with assms have r: "repos = map (\<lambda>l. parseRepoLine pl (trim l)) (filter isRepoLine (splitLines tx))"
    by simp
  have each: "(case parseReposForm l pl of Inr rs \<Rightarrow> rs | Inl err \<Rightarrow> [])
        = (if isRepoLine l then [parseRepoLine pl (trim l)] else [])"
    if "l \<in> set (splitLines tx)" for l
  proof -
    from that have "CHR 0x0A \<notin> set l" by (rule lines_no_LF)
    moreover from that ok have "\<not> isInvalid l" by blast
    ultimately have "parseReposForm l pl = Inr (if isRepoLine l then [parseRepoLine pl (trim l)] else [])"
      by (rule parse_one_line)
    then show ?thesis by simp
  qed
  have m: "map (\<lambda>l. case parseReposForm l pl of Inr rs \<Rightarrow> rs | Inl err \<Rightarrow> []) (splitLines tx)
      = map (\<lambda>l. if isRepoLine l then [parseRepoLine pl (trim l)] else []) (splitLines tx)"
    by (rule map_cong [OF refl]) (rule each)
  have "concat (map (\<lambda>l. if isRepoLine l then [parseRepoLine pl (trim l)] else []) ls)
      = map (\<lambda>l. parseRepoLine pl (trim l)) (filter isRepoLine ls)" for ls
    by (induction ls) auto
  with r show ?thesis unfolding m by simp
qed

lemmas shape_eval = wellFormedLine_def repoLine_def tokenKey_def tokenValue_def

text \<open>
  Claim C5, as amended. With label parsing enabled, every label token of an uncommented
  repo line is turned into one assignment \<^verbatim>\<open>labels[key] = value\<close> (\<open>setLabel\<close>): a token
  with no \<^verbatim>\<open>=\<close> assigns \<open>true\<close> under the token itself; a token \<^verbatim>\<open>key=value\<close> (split at its
  first \<^verbatim>\<open>=\<close>) assigns under \<open>key\<close> the boolean for \<^verbatim>\<open>true\<close> and \<^verbatim>\<open>false\<close>, the number when
  \<^verbatim>\<open>Number\<close> reads the value, and the value string otherwise. A repo line is white space,
  the URL with the name, tokens each after a run of white space, white space; its labels
  are the assignments made in the order of the tokens on an empty object. So a token
  whose key is not \<^verbatim>\<open>__proto__\<close> and is not the key of a later token of the line gives
  its value to its key, and a key of no token has no label. A form is decoded line by
  line, so this holds for every repo line of a form that parses.
\<close>

theorem label_token_coercion:
  "(CHR ''='' \<notin> set token \<longrightarrow>
      labelToken token ls = setLabel token (LBool True) ls
      \<and> tokenKey token = token \<and> tokenValue token = LBool True) \<and>
   (CHR ''='' \<notin> set key \<longrightarrow>
      labelToken (key @ CHR ''='' # val) ls =
        setLabel key
          (if val = ''true'' then LBool True
           else if val = ''false'' then LBool False
           else if Number val \<noteq> NaN then LNum (Number val)
           else LStr val) ls
      \<and> tokenKey (key @ CHR ''='' # val) = key
      \<and> tokenValue (key @ CHR ''='' # val) =
          (if val = ''true'' then LBool True
           else if val = ''false'' then LBool False
           else if Number val \<noteq> NaN then LNum (Number val)
           else LStr val)) \<and>
   (wellFormedLine w0 n sts w1 \<and> sts \<noteq> [] \<longrightarrow>
      parseReposForm (repoLine w0 n sts w1) True =
        Inr [\<lparr>name = n, labels = Some (foldl (\<lambda>ls t. labelToken t ls) Map.empty (map snd sts))\<rparr>]) \<and>
   (tokenKey t \<noteq> ''__proto__'' \<and> (\<forall>u\<in>set post. tokenKey u \<noteq> tokenKey t) \<longrightarrow>
      foldl (\<lambda>ls t. labelToken t ls) Map.empty (pre @ t # post) (tokenKey t) = Some (tokenValue t)) \<and>
   ((\<forall>u\<in>set tokens. tokenKey u \<noteq> k) \<longrightarrow>
      foldl (\<lambda>ls t. labelToken t ls) Map.empty tokens k = None) \<and>
   (parseReposForm tx True = Inr repos \<longrightarrow>
      repos = concat (map (\<lambda>l. case parseReposForm l True of Inr rs \<Rightarrow> rs | Inl err \<Rightarrow> [])
                       (splitLines tx))) \<and>
   (key \<noteq> ''__proto__'' \<longrightarrow> setLabel key v ls key = Some v)"
proof (intro conjI impI)
  assume a: "CHR ''='' \<notin> set token"
  then show "labelToken token ls = setLabel token (LBool True) ls"
    by (rule labelToken_no_eq)
  from a show "tokenKey token = token" "tokenValue token = LBool True"
    using token_no_eq by blast+
next
  assume a: "CHR ''='' \<notin> set key"
  then have "labelToken (key @ CHR ''='' # val) ls = setLabel key (coerceValue val) ls"
    by (rule labelToken_eq)
  then show "labelToken (key @ CHR ''='' # val) ls =
        setLabel key
          (if val = ''true'' then LBool True
           else if val = ''false'' then LBool False
           else if Number val \<noteq> NaN then LNum (Number val)
           else LStr val) ls"
    by (simp add: coerceValue_def isNaN_def)
  from a show "tokenKey (key @ CHR ''='' # val) = key"
    by (rule token_eq(1))
  from a show "tokenValue (key @ CHR ''='' # val) =
          (if val = ''true'' then LBool True
           else if val = ''false'' then LBool False
           else if Number val \<noteq> NaN then LNum (Number val)
           else LStr val)"
    by (rule token_eq(2))
next
  assume "wellFormedLine w0 n sts w1 \<and> sts \<noteq> []"
  then show "parseReposForm (repoLine w0 n sts w1) True =
        Inr [\<lparr>name = n, labels = Some (foldl (\<lambda>ls t. labelToken t ls) Map.empty (map snd sts))\<rparr>]"
    by (simp add: repoLine_parse)
next
  assume "tokenKey t \<noteq> ''__proto__'' \<and> (\<forall>u\<in>set post. tokenKey u \<noteq> tokenKey t)"
  then show "foldl (\<lambda>ls t. labelToken t ls) Map.empty (pre @ t # post) (tokenKey t) = Some (tokenValue t)"
    by (intro fold_last_token) auto
next
  assume "\<forall>u\<in>set tokens. tokenKey u \<noteq> k"
  then show "foldl (\<lambda>ls t. labelToken t ls) Map.empty tokens k = None"
    by (simp add: fold_other_keys)
next
  assume "parseReposForm tx True = Inr repos"
  then show "repos = concat (map (\<lambda>l. case parseReposForm l True of Inr rs \<Rightarrow> rs | Inl err \<Rightarrow> [])
                       (splitLines tx))"
    by (rule parse_by_lines)
next
  assume "key \<noteq> ''__proto__''"
  then show "setLabel key v ls key = Some v"
    by (simp add: setLabel_def)
qed

text \<open>
  The five tokens of the spec, two numbers that are rounded to a double, and a line with
  spaces and a tab around its tokens, the key \<open>y\<close> twice.
\<close>

theorem label_token_coercion_witness:
  "labelToken ''a'' Map.empty ''a'' = Some (LBool True) \<and>
   labelToken ''a=true'' Map.empty ''a'' = Some (LBool True) \<and>
   labelToken ''a=false'' Map.empty ''a'' = Some (LBool False) \<and>
   labelToken ''a=3'' Map.empty ''a'' = Some (LNum (Num 3)) \<and>
   labelToken ''a=x'' Map.empty ''a'' = Some (LStr ''x'') \<and>
   labelToken ''a=1e309'' Map.empty ''a'' = Some (LNum PosInfinity) \<and>
   labelToken ''a=9007199254740993'' Map.empty ''a'' = Some (LNum (Num 9007199254740992)) \<and>
   parseReposForm ('' '' @ JOYENT_REPO_BASE_URL @ ''c  x=1'' @ [CHR 0x09] @ ''y y=0.5 '') True =
     Inr [\<lparr>name = ''c'', labels = Some [''x'' \<mapsto> LNum (Num 1), ''y'' \<mapsto> LNum (Num (1 / 2))]\<rparr>]"
  using label_token_coercion [of "''a''" Map.empty "''a''" "''true''"
      "'' ''" "''c''" "[(''  '', ''x=1''), ([CHR 0x09], ''y''), ('' '', ''y=0.5'')]" "'' ''"
      "''y=0.5''" "[]" "[''x=1'', ''y'']" "[]" "''z''" "[]" "[]" "LBool True"]
    label_token_coercion [of "''a''" Map.empty "''a''" "''false''"
      "'' ''" "''c''" "[(''  '', ''x=1''), ([CHR 0x09], ''y''), ('' '', ''y=0.5'')]" "'' ''"
      "''x=1''" "[''y'', ''y=0.5'']" "[]" "[]" "''z''" "[]" "[]" "LBool False"]
    label_token_coercion [of "''a''" Map.empty "''a''" "''3''"
      "'' ''" "''c''" "[(''  '', ''x=1''), ([CHR 0x09], ''y''), ('' '', ''y=0.5'')]" "'' ''"
      "''x=1''" "[''y'', ''y=0.5'']" "[]" "[]" "''z''" "[]" "[]" "LNum (Num 3)"]
    label_token_coercion [of "''a''" Map.empty "''a''" "''x''"
      "'' ''" "''c''" "[(''  '', ''x=1''), ([CHR 0x09], ''y''), ('' '', ''y=0.5'')]" "'' ''"
      "''x=1''" "[''y'', ''y=0.5'']" "[]" "[]" "''z''" "[]" "[]" "LStr ''x''"]
  by (simp add: shape_eval label_eval number_eval JOYENT_REPO_BASE_URL_def)

text \<open>
  The claim as stated fails for a token whose key comes again later on the line (the
  later assignment replaces the value: the token \<^verbatim>\<open>a\<close> does not yield \<open>true\<close>), and for
  the key \<^verbatim>\<open>__proto__\<close> (nothing is stored).
\<close>

theorem label_token_overwritten_or_dropped:
  "parseReposForm (JOYENT_REPO_BASE_URL @ ''p a a=false'') True =
     Inr [\<lparr>name = ''p'', labels = Some [''a'' \<mapsto> LBool False]\<rparr>] \<and>
   [''a'' \<mapsto> LBool False] ''a'' \<noteq> Some (LBool True) \<and>
   parseReposForm (JOYENT_REPO_BASE_URL @ ''p __proto__'') True =
     Inr [\<lparr>name = ''p'', labels = Some Map.empty\<rparr>] \<and>
   (Map.empty :: labels) ''__proto__'' \<noteq> Some (LBool True)"
  by (simp add: line_eval parseRepoLine_def label_eval number_eval)

text \<open>
  Claim C10, as amended. With label parsing enabled, a token \<^verbatim>\<open>key=\<close> with an empty value
  assigns the number \<open>0\<close> to \<open>key\<close>: the empty string is neither \<^verbatim>\<open>'true'\<close> nor \<^verbatim>\<open>'false'\<close>,
  and \<^verbatim>\<open>Number('')\<close> is \<open>0\<close>, not \<^verbatim>\<open>NaN\<close>; the value is not the empty string and not a
  boolean. On a repo line with any tokens, the label of \<open>key\<close> is the number \<open>0\<close> when \<open>key\<close> is
  not \<^verbatim>\<open>__proto__\<close> and no later token of the line has the same key.
\<close>

theorem empty_label_value_is_zero:
  "Number [] = Num 0 \<and> \<not> isNaN (Number []) \<and>
   coerceValue [] = LNum (Num 0) \<and> coerceValue [] \<noteq> LStr [] \<and> (\<forall>b. coerceValue [] \<noteq> LBool b) \<and>
   (CHR ''='' \<notin> set key \<longrightarrow>
      labelToken (key @ ''='') ls = setLabel key (LNum (Num 0)) ls
      \<and> tokenKey (key @ ''='') = key \<and> tokenValue (key @ ''='') = LNum (Num 0)) \<and>
   (wellFormedLine w0 n sts w1 \<and> map snd sts = pre @ (key @ ''='') # post
      \<and> CHR ''='' \<notin> set key \<and> key \<noteq> ''__proto__'' \<and> (\<forall>u\<in>set post. tokenKey u \<noteq> key) \<longrightarrow>
      (\<exists>lbls. parseReposForm (repoLine w0 n sts w1) True = Inr [\<lparr>name = n, labels = Some lbls\<rparr>]
         \<and> lbls key = Some (LNum (Num 0)))) \<and>
   (parseReposForm tx True = Inr repos \<longrightarrow>
      repos = concat (map (\<lambda>l. case parseReposForm l True of Inr rs \<Rightarrow> rs | Inl err \<Rightarrow> [])
                       (splitLines tx)))"
proof -
  have tok: "labelToken (key @ ''='') ls = setLabel key (LNum (Num 0)) ls"
    and tk: "tokenKey (key @ ''='') = key" and tv: "tokenValue (key @ ''='') = LNum (Num 0)"
    if "CHR ''='' \<notin> set key" for ls
    using labelToken_eq [OF that, of "[]" ls] token_eq [OF that, of "[]"]
    by (simp_all add: coerceValue_empty Number_empty)
  have line: "\<exists>lbls. parseReposForm (repoLine w0 n sts w1) True = Inr [\<lparr>name = n, labels = Some lbls\<rparr>]
         \<and> lbls key = Some (LNum (Num 0))"
    if wf: "wellFormedLine w0 n sts w1" and toks: "map snd sts = pre @ (key @ ''='') # post"
      and e: "CHR ''='' \<notin> set key" and k: "key \<noteq> ''__proto__''"
      and later: "\<forall>u\<in>set post. tokenKey u \<noteq> key"
  proof -
    from toks have ne: "sts \<noteq> []" by auto
    have p: "parseReposForm (repoLine w0 n sts w1) True =
        Inr [\<lparr>name = n, labels = Some (foldl (\<lambda>ls t. labelToken t ls) Map.empty (map snd sts))\<rparr>]"
      using repoLine_parse [OF wf, of True] ne by simp
    have "foldl (\<lambda>ls t. labelToken t ls) Map.empty (pre @ (key @ ''='') # post) (tokenKey (key @ ''=''))
        = Some (tokenValue (key @ ''=''))"
      using k later tk [OF e] by (intro fold_last_token) simp_all
    then have "foldl (\<lambda>ls t. labelToken t ls) Map.empty (map snd sts) key = Some (LNum (Num 0))"
      using toks tk [OF e] tv [OF e] by simp
    with p show ?thesis by blast
  qed
  have form: "repos = concat (map (\<lambda>l. case parseReposForm l True of Inr rs \<Rightarrow> rs | Inl err \<Rightarrow> [])
                       (splitLines tx))"
    if "parseReposForm tx True = Inr repos"
    using that by (rule parse_by_lines)
  have c: "coerceValue [] = LNum (Num 0)" by (rule coerceValue_empty)
  show ?thesis
    using tok tk tv line form
    by (intro conjI impI allI) (simp_all add: Number_empty c isNaN_def)
qed

theorem empty_label_value_is_zero_witness:
  "labelToken ''key='' Map.empty = [''key'' \<mapsto> LNum (Num 0)] \<and>
   (\<exists>lbls. parseReposForm (JOYENT_REPO_BASE_URL @ ''sdc-imgapi  vm=x  vm= agent'') True
             = Inr [\<lparr>name = ''sdc-imgapi'', labels = Some lbls\<rparr>]
      \<and> lbls ''vm'' = Some (LNum (Num 0)))"
  using empty_label_value_is_zero [of "''key''" Map.empty
      "[]" "''sdc-imgapi''" "[(''  '', ''vm=x''), (''  '', ''vm=''), ('' '', ''agent'')]" "[]"
      "[''vm=x'']" "[''agent'']"]
    empty_label_value_is_zero [of "''vm''" Map.empty
      "[]" "''sdc-imgapi''" "[(''  '', ''vm=x''), (''  '', ''vm=''), ('' '', ''agent'')]" "[]"
      "[''vm=x'']" "[''agent'']"]
  by (simp add: shape_eval setLabel_def is_ws_def JOYENT_REPO_BASE_URL_def)

text \<open>
  The claim as stated fails on a line where a later token has the same key (the label is
  the later value), and for the key \<^verbatim>\<open>__proto__\<close> (nothing is stored).
\<close>

theorem empty_value_overwritten_or_dropped:
  "parseReposForm (JOYENT_REPO_BASE_URL @ ''sdc-imgapi vm= vm=x'') True =
     Inr [\<lparr>name = ''sdc-imgapi'', labels = Some [''vm'' \<mapsto> LStr ''x'']\<rparr>] \<and>
   [''vm'' \<mapsto> LStr ''x''] ''vm'' \<noteq> Some (LNum (Num 0)) \<and>
   parseReposForm (JOYENT_REPO_BASE_URL @ ''sdc-imgapi __proto__='') True =
     Inr [\<lparr>name = ''sdc-imgapi'', labels = Some Map.empty\<rparr>] \<and>
   (Map.empty :: labels) ''__proto__'' \<noteq> Some (LNum (Num 0))"
  by (simp add: line_eval parseRepoLine_def label_eval number_eval)

section \<open>Facts about encoded forms\<close>

lemma splitLines_append:
  "CHR 0x0A \<notin> set l \<Longrightarrow> splitLines (l @ CHR 0x0A # rest) = l # splitLines rest"
  by (induction l) auto

lemma splitLines_joinLines:
  "ls \<noteq> [] \<Longrightarrow> \<forall>l\<in>set ls. CHR 0x0A \<notin> set l \<Longrightarrow> splitLines (joinLines ls) = ls"
proof (induction ls rule: joinLines.induct)
  case 1
  then show ?case by simp
next
  case (2 l)
  then show ?case by (simp add: splitLines_single)
next
  case (3 l m ls)
  then show ?case by (simp add: splitLines_append)
qed

lemma joinLines_snoc_empty: "ls \<noteq> [] \<Longrightarrow> joinLines (ls @ [[]]) = joinLines ls @ [CHR 0x0A]"
  by (induction ls rule: joinLines.induct) auto

lemma uncommentLine_comment: "uncommentLine (''# '' @ l) = l"
  by (simp add: uncommentLine_def)

lemma parseRepoLine_name_only:
  "\<forall>c\<in>set n. \<not> is_ws c \<Longrightarrow>
   parseRepoLine pl (JOYENT_REPO_BASE_URL @ n) = \<lparr>name = n, labels = None\<rparr>"
  by (simp add: parseRepoLine_def splitWs_single)

lemma url_line:
  assumes "\<forall>c\<in>set n. \<not> is_ws c"
  shows "trim (JOYENT_REPO_BASE_URL @ n) = JOYENT_REPO_BASE_URL @ n"
    and "isRepoLine (JOYENT_REPO_BASE_URL @ n)"
    and "CHR 0x0A \<notin> set (JOYENT_REPO_BASE_URL @ n)"
proof -
  let ?l = "JOYENT_REPO_BASE_URL @ n"
  have l: "?l = CHR ''h'' # tl ?l" by (simp add: JOYENT_REPO_BASE_URL_def)
  have "\<not> is_ws (last ?l)"
    using assms by (cases "n = []") (auto simp: JOYENT_REPO_BASE_URL_def is_ws_def)
  then have "trim (CHR ''h'' # tl ?l) = CHR ''h'' # tl ?l"
    using l by (intro trim_id) (auto simp: is_ws_def)
  then show t: "trim ?l = ?l" using l by simp
  show "isRepoLine ?l" by (simp add: isRepoLine_def t)
  have "is_ws (CHR 0x0A)" by (simp add: is_ws_def)
  then show "CHR 0x0A \<notin> set ?l" using assms by (auto simp: JOYENT_REPO_BASE_URL_def)
qed

section \<open>Encoding and decoding a form\<close>

text \<open>
  Claim C2, as amended. For front matter whose lines are blank or comment lines (without
  line feeds) and repos whose names have no white space, decoding the encoded form with
  every repo line uncommented gives exactly the names of the repos, in order, and no
  labels: \<^verbatim>\<open>createReposForm\<close> writes names only, so label maps are not reproduced.
\<close>

theorem uncommented_form_decodes_to_names:
  assumes fm: "\<forall>l\<in>set frontMatter. CHR 0x0A \<notin> set l \<and> (isBlank l \<or> isComment l)"
    and names: "\<forall>r\<in>set repos. \<forall>c\<in>set (name r). \<not> is_ws c"
  shows "parseReposForm (uncommentRepoLines (length frontMatter) (createReposForm frontMatter repos))
           parseLabels
         = Inr (map (\<lambda>r. \<lparr>name = name r, labels = None\<rparr>) repos)"
proof -
  let ?NL = "CHR 0x0A"
  let ?urls = "map (\<lambda>r. JOYENT_REPO_BASE_URL @ name r) repos"
  let ?commented = "map (\<lambda>r. ''# '' @ JOYENT_REPO_BASE_URL @ name r) repos"
  let ?form = "frontMatter @ ?commented"
  have "\<forall>r\<in>set repos. ?NL \<notin> set (JOYENT_REPO_BASE_URL @ name r)"
    using names url_line(3) by blast
  then have urls_nl: "\<forall>l\<in>set ?urls. ?NL \<notin> set l" by auto
  have comm_nl: "\<forall>l\<in>set ?commented. ?NL \<notin> set l"
    using urls_nl by auto
  have fm_nl: "\<forall>l\<in>set frontMatter. ?NL \<notin> set l" using fm by auto
  have edited: "uncommentRepoLines (length frontMatter) (createReposForm frontMatter repos)
      = joinLines (frontMatter @ ?urls @ [[]]) \<or>
        (frontMatter = [] \<and> repos = [] \<and>
         uncommentRepoLines (length frontMatter) (createReposForm frontMatter repos) = [?NL])"
  proof (cases "?form = []")
    case True
    then show ?thesis
      by (simp add: uncommentRepoLines_def createReposForm_def uncommentLine_def)
  next
    case False
    then have "createReposForm frontMatter repos = joinLines (?form @ [[]])"
      by (simp add: createReposForm_def joinLines_snoc_empty del: append_assoc)
    moreover have "splitLines (joinLines (?form @ [[]])) = ?form @ [[]]"
      using fm_nl comm_nl by (intro splitLines_joinLines) auto
    ultimately have "splitLines (createReposForm frontMatter repos) = frontMatter @ ?commented @ [[]]"
      by simp
    then show ?thesis
      by (simp add: uncommentRepoLines_def uncommentLine_def o_def)
  qed
  have valid: "\<forall>l\<in>set (frontMatter @ ?urls @ [[]]). \<not> isInvalid l"
    using fm names url_line(2) by (auto simp: isInvalid_def isBlank_def trim_def)
  have fm_none: "filter isRepoLine frontMatter = []"
    using fm repo_line_not_comment by (auto simp: filter_empty_conv)
  have urls_all: "filter isRepoLine ?urls = ?urls"
    using names url_line(2) by (auto simp: filter_id_conv)
  have empty_not: "\<not> isRepoLine []"
    by (simp add: isRepoLine_def trim_def JOYENT_REPO_BASE_URL_def)
  have parsed: "map (\<lambda>l. parseRepoLine parseLabels (trim l)) ?urls
      = map (\<lambda>r. \<lparr>name = name r, labels = None\<rparr>) repos"
    using names by (simp add: url_line(1) parseRepoLine_name_only)
  have main: "parseReposForm (joinLines (frontMatter @ ?urls @ [[]])) parseLabels
      = Inr (map (\<lambda>r. \<lparr>name = name r, labels = None\<rparr>) repos)"
  proof -
    have "splitLines (joinLines (frontMatter @ ?urls @ [[]])) = frontMatter @ ?urls @ [[]]"
      using fm_nl urls_nl by (intro splitLines_joinLines) auto
    then have "parseReposForm (joinLines (frontMatter @ ?urls @ [[]])) parseLabels
        = parseLoop parseLabels 0 (frontMatter @ ?urls @ [[]]) []"
      by (simp add: parseReposForm_def)
    also have "\<dots> = Inr ([] @ map (\<lambda>l. parseRepoLine parseLabels (trim l))
                            (filter isRepoLine (frontMatter @ ?urls @ [[]])))"
      using valid by (rule parseLoop_valid)
    also have "filter isRepoLine (frontMatter @ ?urls @ [[]]) = ?urls"
      using fm_none urls_all empty_not by simp
    finally show ?thesis using parsed by simp
  qed
  from edited show ?thesis
  proof
    assume "uncommentRepoLines (length frontMatter) (createReposForm frontMatter repos)
      = joinLines (frontMatter @ ?urls @ [[]])"
    then show ?thesis using main by simp
  next
    assume "frontMatter = [] \<and> repos = [] \<and>
         uncommentRepoLines (length frontMatter) (createReposForm frontMatter repos) = [?NL]"
    then show ?thesis
      by (simp add: parseReposForm_def trim_def uncommentRepoLines_def createReposForm_def
            uncommentLine_def)
  qed
qed

lemmas form_eval = createReposForm_def uncommentRepoLines_def uncommentLine_def

theorem uncommented_form_decodes_to_names_witness:
  "parseReposForm
     (uncommentRepoLines 2
        (createReposForm [''# Uncomment any repos'', []]
           [\<lparr>name = ''mahi'', labels = Some [''meta'' \<mapsto> LBool True]\<rparr>, \<lparr>name = ''rfd'', labels = None\<rparr>])) True
   = Inr [\<lparr>name = ''mahi'', labels = None\<rparr>, \<lparr>name = ''rfd'', labels = None\<rparr>]"
  using uncommented_form_decodes_to_names
    [of "[''# Uncomment any repos'', []]"
        "[\<lparr>name = ''mahi'', labels = Some [''meta'' \<mapsto> LBool True]\<rparr>, \<lparr>name = ''rfd'', labels = None\<rparr>]" True]
  by (simp add: isBlank_def isComment_def trim_def is_ws_def numeral_2_eq_2)

text \<open>
  The claim as stated fails on a repo that carries labels (they are lost), and on front
  matter with a line that is neither blank nor a comment (decoding fails).
\<close>

theorem labels_lost_in_form:
  "parseReposForm
     (uncommentRepoLines 0 (createReposForm [] [\<lparr>name = ''rfd'', labels = Some [''meta'' \<mapsto> LBool True]\<rparr>])) True
     = Inr [\<lparr>name = ''rfd'', labels = None\<rparr>] \<and>
   map labels [\<lparr>name = ''rfd'', labels = Some [''meta'' \<mapsto> LBool True]\<rparr>] \<noteq> [None] \<and>
   parseReposForm
     (uncommentRepoLines 1 (createReposForm [''Repos:''] [\<lparr>name = ''rfd'', labels = None\<rparr>])) True
     = Inl (FormatError 1 ''Repos:'')"
  by (simp add: form_eval line_eval parseRepoLine_def)



section \<open>The pipeline\<close>

lemma pipeline_stops:
  "snd (f c) \<noteq> None \<Longrightarrow> (\<forall>c'. snd (f c) \<noteq> Some (Inr c')) \<Longrightarrow> pipeline (f # rest) c = f c"
  by (cases "f c") (auto split: option.splits sum.splits)

lemma pipeline_waits: "snd (f c) = None \<Longrightarrow> pipeline (f # rest) c = f c"
  by (cases "f c") (auto split: option.splits sum.splits)

lemma pipeline_goes_on:
  "snd (f c) = Some (Inr c') \<Longrightarrow>
   pipeline (f # rest) c = (fst (f c) @ fst (pipeline rest c'), snd (pipeline rest c'))"
  by (cases "f c") (auto split: prod.splits)

lemma pipeline_append:
  "pipeline fs c = (evs, Some (Inr c')) \<Longrightarrow>
   pipeline (fs @ gs) c = (evs @ fst (pipeline gs c'), snd (pipeline gs c'))"
proof (induction fs arbitrary: c evs)
  case Nil
  then show ?case by simp
next
  case (Cons f fs)
  obtain ev r where f: "f c = (ev, r)" by (cases "f c")
  show ?case
  proof (cases r)
    case None
    with f Cons.prems show ?thesis by simp
  next
    case (Some x)
    show ?thesis
    proof (cases x)
      case (Inl err)
      with f Some Cons.prems show ?thesis by simp
    next
      case (Inr c1)
      obtain ev1 r1 where p: "pipeline fs c1 = (ev1, r1)" by (cases "pipeline fs c1")
      with f Some Inr Cons.prems have r1: "r1 = Some (Inr c')" and evs: "evs = ev @ ev1" by auto
      from Cons.IH [OF p [unfolded r1]]
      show ?thesis using f Some Inr evs by simp
    qed
  qed
qed

lemma written_append: "written (xs @ ys) = written xs @ written ys"
  by (simp add: written_def)

lemma pipeline_single: "pipeline [f] c = f c"
  by (cases "f c") (auto split: option.splits sum.splits)

lemma pipeline_append_stop:
  "\<forall>c'. snd (pipeline fs c) \<noteq> Some (Inr c') \<Longrightarrow> pipeline (fs @ gs) c = pipeline fs c"
proof (induction fs arbitrary: c)
  case Nil
  then show ?case by simp
next
  case (Cons f fs)
  obtain ev r where f: "f c = (ev, r)" by (cases "f c")
  show ?case
  proof (cases r)
    case None
    with f show ?thesis by simp
  next
    case (Some x)
    show ?thesis
    proof (cases x)
      case (Inl err)
      with f Some show ?thesis by simp
    next
      case (Inr c1)
      with f Some Cons.prems have "\<forall>c'. snd (pipeline fs c1) \<noteq> Some (Inr c')"
        by (auto split: prod.splits)
      from Cons.IH [OF this] f Some Inr show ?thesis by simp
    qed
  qed
qed

section \<open>Reconciliation\<close>

lemma own_of_list:
  "own (foldl (\<lambda>d x. dictSetObject (f x) (g x) d) d0 xs) k \<noteq> None \<longleftrightarrow>
     own d0 k \<noteq> None \<or> (k \<in> set (map f xs) \<and> k \<noteq> ''__proto__'')"
  by (induction xs arbitrary: d0) (auto simp: dictSetObject_def)

lemma own_of_list_primitive:
  "own (foldl (\<lambda>d x. dictSetPrimitive (f x) (g x) d) d0 xs) k \<noteq> None \<longleftrightarrow>
     own d0 k \<noteq> None \<or> (k \<in> set (map f xs) \<and> k \<noteq> ''__proto__'')"
  by (induction xs arbitrary: d0) (auto simp: dictSetPrimitive_def)

lemma proto_of_list:
  "''__proto__'' \<notin> set (map f xs) \<Longrightarrow>
   protoObj (foldl (\<lambda>d x. dictSetObject (f x) (g x) d) d0 xs) = protoObj d0"
  by (induction xs arbitrary: d0) (auto simp: dictSetObject_def)

lemma proto_of_list_primitive:
  "protoObj (foldl (\<lambda>d x. dictSetPrimitive (f x) (g x) d) d0 xs) = protoObj d0"
  by (induction xs arbitrary: d0) (auto simp: dictSetPrimitive_def)

lemma proto_inherited: "''__proto__'' \<in> set objectPrototypeKeys"
  by (simp add: objectPrototypeKeys_def)

lemma dictTruthy_of_list:
  assumes "''__proto__'' \<notin> set (map f xs)"
  shows "dictTruthy P (foldl (\<lambda>d x. dictSetObject (f x) (g x) d) emptyObject xs) k \<longleftrightarrow>
     k \<in> set (map f xs) \<or> k \<in> set objectPrototypeKeys"
  unfolding dictTruthy_def own_of_list proto_of_list [OF assms]
  using proto_inherited by (auto simp: emptyObject_def)

lemma dictTruthy_of_list_primitive:
  "dictTruthy P (foldl (\<lambda>d x. dictSetPrimitive (f x) (g x) d) emptyObject xs) k \<longleftrightarrow>
     k \<in> set (map f xs) \<or> k \<in> set objectPrototypeKeys"
  unfolding dictTruthy_def own_of_list_primitive proto_of_list_primitive
  using proto_inherited by (auto simp: emptyObject_def)

lemma dictTruthy_empty: "dictTruthy P emptyObject k \<longleftrightarrow> k \<in> set objectPrototypeKeys"
  using proto_inherited by (auto simp: dictTruthy_def emptyObject_def)

text \<open>
  What \<^verbatim>\<open>categorizeRepos\<close> computes when no tracked repo and no candidate is named
  \<^verbatim>\<open>__proto__\<close> (so that the prototype of the dictionaries stays \<^verbatim>\<open>Object.prototype\<close>).
\<close>

lemma categorizeRepos_eq:
  assumes r: "''__proto__'' \<notin> set (map name (repositories (manifest c)))"
    and cd: "''__proto__'' \<notin> set (map name (candidateRepos c))"
  shows "categorizeRepos c =
     ([], Some (Inr (c
        \<lparr>goneRepos :=
           filter (\<lambda>r. name r \<notin> set (map name (candidateRepos c)) \<and> name r \<notin> set objectPrototypeKeys)
             (repositories (manifest c)),
         goneExcRepos :=
           map (\<lambda>n. \<lparr>name = n\<rparr>)
             (filter (\<lambda>n. n \<notin> set (map name (candidateRepos c)) \<and> n \<notin> set objectPrototypeKeys)
               (excludedRepositories (manifest c))),
         newRepos :=
           filter (\<lambda>r. name r \<notin> set (map name (repositories (manifest c)))
                       \<and> name r \<notin> set (excludedRepositories (manifest c))
                       \<and> name r \<notin> set objectPrototypeKeys)
             (candidateRepos c)\<rparr>)))"
proof -
  have a: "dictTruthy candidateProperty
             (foldl (\<lambda>d repo. dictSetObject (name repo) repo d) emptyObject (candidateRepos c)) k \<longleftrightarrow>
      k \<in> set (map name (candidateRepos c)) \<or> k \<in> set objectPrototypeKeys" for k
    using cd by (rule dictTruthy_of_list)
  have a': "dictTruthy repoProperty
             (foldl (\<lambda>d repo. dictSetObject (name repo) repo d) emptyObject (repositories (manifest c))) k \<longleftrightarrow>
      k \<in> set (map name (repositories (manifest c))) \<or> k \<in> set objectPrototypeKeys" for k
    using r by (rule dictTruthy_of_list)
  have b: "dictTruthy (\<lambda>v k. False) (foldl (\<lambda>d n. dictSetPrimitive n True d) emptyObject xs) k \<longleftrightarrow>
      k \<in> set xs \<or> k \<in> set objectPrototypeKeys" for xs k
    using dictTruthy_of_list_primitive [of "\<lambda>v k. False" "\<lambda>n. n" "\<lambda>n. True" xs k] by simp
  have f1: "filter (\<lambda>repo. \<not> dictTruthy candidateProperty
                (foldl (\<lambda>d repo. dictSetObject (name repo) repo d) emptyObject (candidateRepos c)) (name repo)) xs
      = filter (\<lambda>r. name r \<notin> set (map name (candidateRepos c)) \<and> name r \<notin> set objectPrototypeKeys) xs"
    for xs :: "repo list"
    by (rule filter_cong) (auto simp: a)
  have f2: "filter (\<lambda>n. \<not> dictTruthy candidateProperty
                (foldl (\<lambda>d repo. dictSetObject (name repo) repo d) emptyObject (candidateRepos c)) n) xs
      = filter (\<lambda>n. n \<notin> set (map name (candidateRepos c)) \<and> n \<notin> set objectPrototypeKeys) xs"
    for xs :: "string list"
    by (rule filter_cong) (auto simp: a)
  have f3: "filter (\<lambda>repo. \<not> dictTruthy repoProperty
                (foldl (\<lambda>d repo. dictSetObject (name repo) repo d) emptyObject (repositories (manifest c))) (name repo)
              \<and> \<not> dictTruthy (\<lambda>v k. False)
                (foldl (\<lambda>d n. dictSetPrimitive n True d) emptyObject (excludedRepositories (manifest c))) (name repo)) xs
      = filter (\<lambda>r. name r \<notin> set (map name (repositories (manifest c)))
                       \<and> name r \<notin> set (excludedRepositories (manifest c))
                       \<and> name r \<notin> set objectPrototypeKeys) xs"
    for xs :: "candidate list"
    by (rule filter_cong) (auto simp: a' b)
  show ?thesis
    unfolding categorizeRepos_def Let_def f1 f2 f3 ..
qed

text \<open>What \<^verbatim>\<open>categorizeRepos\<close> computes on zero candidates.\<close>

lemma categorizeRepos_no_candidates:
  assumes "candidateRepos c = []"
  shows "categorizeRepos c =
     ([], Some (Inr (c
        \<lparr>goneRepos := filter (\<lambda>r. name r \<notin> set objectPrototypeKeys) (repositories (manifest c)),
         goneExcRepos :=
           map (\<lambda>n. \<lparr>name = n\<rparr>)
             (filter (\<lambda>n. n \<notin> set objectPrototypeKeys) (excludedRepositories (manifest c))),
         newRepos := []\<rparr>)))"
  by (simp add: categorizeRepos_def Let_def assms dictTruthy_empty)

text \<open>
  Extra X1 (next to claim C1). When no name of the manifest or of the listing is the name of
  a property that objects inherit, reconciliation computes exactly the three differences:
  the tracked repos that are no candidates, the excluded names that are no candidates, and
  the candidates that are neither tracked nor excluded.
\<close>

theorem categorize_exact_without_inherited_names:
  assumes "\<forall>n\<in>set (map name (repositories (manifest c))) \<union> set (excludedRepositories (manifest c))
              \<union> set (map name (candidateRepos c)). n \<notin> set objectPrototypeKeys"
  shows "categorizeRepos c =
     ([], Some (Inr (c
        \<lparr>goneRepos :=
           filter (\<lambda>r. name r \<notin> set (map name (candidateRepos c))) (repositories (manifest c)),
         goneExcRepos :=
           map (\<lambda>n. \<lparr>name = n\<rparr>)
             (filter (\<lambda>n. n \<notin> set (map name (candidateRepos c))) (excludedRepositories (manifest c))),
         newRepos :=
           filter (\<lambda>r. name r \<notin> set (map name (repositories (manifest c)))
                       \<and> name r \<notin> set (excludedRepositories (manifest c)))
             (candidateRepos c)\<rparr>)))"
proof -
  have f1: "filter (\<lambda>r. name r \<notin> set (map name (candidateRepos c)) \<and> name r \<notin> set objectPrototypeKeys)
             (repositories (manifest c))
      = filter (\<lambda>r. name r \<notin> set (map name (candidateRepos c))) (repositories (manifest c))"
    using assms by (intro filter_cong) auto
  have f2: "filter (\<lambda>n. n \<notin> set (map name (candidateRepos c)) \<and> n \<notin> set objectPrototypeKeys)
               (excludedRepositories (manifest c))
      = filter (\<lambda>n. n \<notin> set (map name (candidateRepos c))) (excludedRepositories (manifest c))"
    using assms by (intro filter_cong) auto
  have f3: "filter (\<lambda>r. name r \<notin> set (map name (repositories (manifest c)))
                       \<and> name r \<notin> set (excludedRepositories (manifest c))
                       \<and> name r \<notin> set objectPrototypeKeys) (candidateRepos c)
      = filter (\<lambda>r. name r \<notin> set (map name (repositories (manifest c)))
                       \<and> name r \<notin> set (excludedRepositories (manifest c))) (candidateRepos c)"
    using assms by (intro filter_cong) auto
  have "''__proto__'' \<notin> set (map name (repositories (manifest c)))"
    and "''__proto__'' \<notin> set (map name (candidateRepos c))"
    using assms proto_inherited by blast+
  then show ?thesis
    unfolding f1 [symmetric] f2 [symmetric] f3 [symmetric] by (rule categorizeRepos_eq)
qed

lemmas session_eval =
  do_update_manifest_def curationStages_def fetchCandidateRepos_def categorizeRepos_def
  removeGoneRepos_def confirmAddNewRepos_def addNewIncludedRepos_def
  confirmAddNewExcludedRepos_def addNewExcludedRepos_def editReposInEditor_def
  saveManifest_def initialCtx_def dictSetObject_def dictSetPrimitive_def dictTruthy_def
  emptyObject_def repoProperty_def candidateProperty_def objectPrototypeKeys_def
  sortArrayOfObjects_def written_def Let_def
  exampleEnv_def exampleManifest_def exampleCandidates_def

theorem categorize_exact_without_inherited_names_witness:
  "categorizeRepos ((initialCtx exampleManifest)\<lparr>candidateRepos := filter (\<lambda>r. \<not> archived r) exampleCandidates\<rparr>) =
     ([], Some (Inr ((initialCtx exampleManifest)
        \<lparr>candidateRepos := [\<lparr>name = ''a'', archived = False, otherProperties = []\<rparr>, \<lparr>name = ''c'', archived = False, otherProperties = []\<rparr>,
                            \<lparr>name = ''e'', archived = False, otherProperties = []\<rparr>],
         goneRepos := [\<lparr>name = ''b'', labels = None\<rparr>],
         goneExcRepos := [\<lparr>name = ''x''\<rparr>],
         newRepos := [\<lparr>name = ''c'', archived = False, otherProperties = []\<rparr>, \<lparr>name = ''e'', archived = False, otherProperties = []\<rparr>]\<rparr>)))"
  using categorize_exact_without_inherited_names
    [of "(initialCtx exampleManifest)\<lparr>candidateRepos := filter (\<lambda>r. \<not> archived r) exampleCandidates\<rparr>"]
  by (simp add: initialCtx_def exampleManifest_def exampleCandidates_def objectPrototypeKeys_def)

text \<open>
  Claim C1. The claim fails on the code for a name that objects inherit: the tracked repo
  \<open>constructor\<close> is not in the listing and is not classified as gone, and the candidate
  \<open>toString\<close> is neither tracked nor excluded and is not classified as new.
\<close>

theorem inherited_names_are_not_categorized:
  "categorizeRepos
     ((initialCtx (exampleManifest
         \<lparr>repositories := [\<lparr>name = ''a'', labels = None\<rparr>, \<lparr>name = ''constructor'', labels = None\<rparr>]\<rparr>))
      \<lparr>candidateRepos := [\<lparr>name = ''a'', archived = False, otherProperties = []\<rparr>, \<lparr>name = ''toString'', archived = False, otherProperties = []\<rparr>]\<rparr>)
   = ([], Some (Inr
     ((initialCtx (exampleManifest
         \<lparr>repositories := [\<lparr>name = ''a'', labels = None\<rparr>, \<lparr>name = ''constructor'', labels = None\<rparr>]\<rparr>))
      \<lparr>candidateRepos := [\<lparr>name = ''a'', archived = False, otherProperties = []\<rparr>, \<lparr>name = ''toString'', archived = False, otherProperties = []\<rparr>],
       goneRepos := [], goneExcRepos := [\<lparr>name = ''x''\<rparr>], newRepos := []\<rparr>)))"
  by (simp add: session_eval)

section \<open>The removal stage\<close>

text \<open>
  Claim C9. When the removal question is asked (something is gone): on the answer \<open>y\<close> the
  stage writes the manifest whose \<open>repositories\<close> are the old ones without the gone names
  and whose \<open>excludedRepositories\<close> are the old ones without the gone excluded names, every
  other field as before, and goes on with that manifest (or ends with the error of the
  write); on any other answer it goes on with the unchanged context and writes nothing.
\<close>

theorem removal_stage_yes_no:
  "(removeAnswer e = ''y'' \<and> map name (goneRepos c) @ map name (goneExcRepos c) \<noteq> [] \<longrightarrow>
      (\<exists>m'. removeGoneRepos e c =
              ([PromptYesNo (map name (goneRepos c) @ map name (goneExcRepos c)), WriteFile m'],
               Some (if removeWriteOk e then Inr (c\<lparr>manifest := m'\<rparr>) else Inl WriteError))
         \<and> repositories m' =
             filter (\<lambda>r. name r \<notin> set (map name (goneRepos c))) (repositories (manifest c))
         \<and> excludedRepositories m' =
             filter (\<lambda>n. n \<notin> set (map name (goneExcRepos c))) (excludedRepositories (manifest c))
         \<and> set (map name (repositories m')) =
             set (map name (repositories (manifest c))) - set (map name (goneRepos c))
         \<and> set (excludedRepositories m') =
             set (excludedRepositories (manifest c)) - set (map name (goneExcRepos c))
         \<and> description m' = description (manifest c)
         \<and> repoCandidateSearch m' = repoCandidateSearch (manifest c)
         \<and> blessedLabels m' = blessedLabels (manifest c)
         \<and> defaults m' = defaults (manifest c))) \<and>
   (removeAnswer e \<noteq> ''y'' \<longrightarrow>
      snd (removeGoneRepos e c) = Some (Inr c) \<and> written (fst (removeGoneRepos e c)) = [])"
proof (intro conjI impI)
  let ?gone = "set (map name (goneRepos c))"
  let ?goneExc = "set (map name (goneExcRepos c))"
  let ?m = "(manifest c)
      \<lparr>repositories := filter (\<lambda>r. name r \<notin> ?gone) (repositories (manifest c)),
       excludedRepositories := filter (\<lambda>n. n \<notin> ?goneExc) (excludedRepositories (manifest c))\<rparr>"
  assume a: "removeAnswer e = ''y'' \<and> map name (goneRepos c) @ map name (goneExcRepos c) \<noteq> []"
  then have run: "removeGoneRepos e c =
      ([PromptYesNo (map name (goneRepos c) @ map name (goneExcRepos c)), WriteFile ?m],
       Some (if removeWriteOk e then Inr (c\<lparr>manifest := ?m\<rparr>) else Inl WriteError))"
    by (simp add: removeGoneRepos_def saveManifest_def Let_def)
  have names: "set (map name (repositories ?m)) = set (map name (repositories (manifest c))) - ?gone"
    by auto
  have excluded: "set (excludedRepositories ?m) = set (excludedRepositories (manifest c)) - ?goneExc"
    by auto
  show "\<exists>m'. removeGoneRepos e c =
              ([PromptYesNo (map name (goneRepos c) @ map name (goneExcRepos c)), WriteFile m'],
               Some (if removeWriteOk e then Inr (c\<lparr>manifest := m'\<rparr>) else Inl WriteError))
         \<and> repositories m' =
             filter (\<lambda>r. name r \<notin> set (map name (goneRepos c))) (repositories (manifest c))
         \<and> excludedRepositories m' =
             filter (\<lambda>n. n \<notin> set (map name (goneExcRepos c))) (excludedRepositories (manifest c))
         \<and> set (map name (repositories m')) =
             set (map name (repositories (manifest c))) - set (map name (goneRepos c))
         \<and> set (excludedRepositories m') =
             set (excludedRepositories (manifest c)) - set (map name (goneExcRepos c))
         \<and> description m' = description (manifest c)
         \<and> repoCandidateSearch m' = repoCandidateSearch (manifest c)
         \<and> blessedLabels m' = blessedLabels (manifest c)
         \<and> defaults m' = defaults (manifest c)"
    using run names excluded by (intro exI [of _ ?m]) simp
next
  assume "removeAnswer e \<noteq> ''y''"
  then show "snd (removeGoneRepos e c) = Some (Inr c)"
    by (simp add: removeGoneRepos_def Let_def)
next
  assume "removeAnswer e \<noteq> ''y''"
  then show "written (fst (removeGoneRepos e c)) = []"
    by (simp add: removeGoneRepos_def Let_def written_def)
qed

text \<open>
  The scenario of the spec: \<open>repositories\<close> are \<open>a\<close> and \<open>b\<close>, only \<open>a\<close> is a candidate;
  confirming the removal leaves \<open>a\<close>. Declining leaves everything and writes nothing.
\<close>

theorem removal_stage_yes_no_witness:
  "removeGoneRepos exampleEnv
     ((initialCtx exampleManifest)\<lparr>goneRepos := [\<lparr>name = ''b'', labels = None\<rparr>], goneExcRepos := [\<lparr>name = ''x''\<rparr>]\<rparr>)
   = ([PromptYesNo [''b'', ''x''],
       WriteFile (exampleManifest\<lparr>repositories := [\<lparr>name = ''a'', labels = None\<rparr>], excludedRepositories := []\<rparr>)],
      Some (Inr ((initialCtx exampleManifest)
        \<lparr>manifest := exampleManifest\<lparr>repositories := [\<lparr>name = ''a'', labels = None\<rparr>], excludedRepositories := []\<rparr>,
         goneRepos := [\<lparr>name = ''b'', labels = None\<rparr>], goneExcRepos := [\<lparr>name = ''x''\<rparr>]\<rparr>))) \<and>
   removeGoneRepos (exampleEnv\<lparr>removeAnswer := ''n''\<rparr>)
     ((initialCtx exampleManifest)\<lparr>goneRepos := [\<lparr>name = ''b'', labels = None\<rparr>], goneExcRepos := [\<lparr>name = ''x''\<rparr>]\<rparr>)
   = ([PromptYesNo [''b'', ''x'']],
      Some (Inr ((initialCtx exampleManifest)\<lparr>goneRepos := [\<lparr>name = ''b'', labels = None\<rparr>], goneExcRepos := [\<lparr>name = ''x''\<rparr>]\<rparr>)))"
  using removal_stage_yes_no
    [of exampleEnv "(initialCtx exampleManifest)\<lparr>goneRepos := [\<lparr>name = ''b'', labels = None\<rparr>], goneExcRepos := [\<lparr>name = ''x''\<rparr>]\<rparr>"]
    removal_stage_yes_no
    [of "exampleEnv\<lparr>removeAnswer := ''n''\<rparr>" "(initialCtx exampleManifest)\<lparr>goneRepos := [\<lparr>name = ''b'', labels = None\<rparr>], goneExcRepos := [\<lparr>name = ''x''\<rparr>]\<rparr>"]
  by (simp add: session_eval)

section \<open>An empty or unreachable candidate source\<close>

text \<open>
  Claim C3, as amended. When the candidate source is unreachable (the listing fails), the
  run ends with that failure right after the request: nothing is reconciled, asked or
  written. When the source answers with an empty candidate set (an empty listing, or one
  whose repos are all archived and dropped), the run does not fail: reconciliation runs
  on zero candidates. For a manifest none of whose names is the name of a property that
  objects inherit, it finds no new repo and classifies as gone every tracked repo and
  every excluded name. If the manifest tracks or excludes anything, the removal stage then
  asks whether to remove all these names; on the answer \<open>y\<close> it writes the manifest with
  \<open>repositories\<close> and \<open>excludedRepositories\<close> emptied, on any other answer nothing is
  written. No later stage asks or writes anything, and the run ends without error (unless
  that write fails).
\<close>

theorem unreachable_source_fails_empty_source_proceeds:
  "(searchType (repoCandidateSearch m) = Some ty \<and> listForOrg e = Inl status \<longrightarrow>
      do_update_manifest e m = ([ListForOrg ty], Some (Inl (GitHubApiError status)))) \<and>
   (searchType (repoCandidateSearch m) = Some ty \<and> listForOrg e = Inr cands \<and>
      (if \<not> includeArchived (repoCandidateSearch m) then filter (\<lambda>repo. \<not> archived repo) cands
       else cands) = [] \<and>
      (\<forall>n\<in>set (map name (repositories m)) \<union> set (excludedRepositories m).
          n \<notin> set objectPrototypeKeys) \<longrightarrow>
      (let gone = map name (repositories m) @ excludedRepositories m;
           c1 = (initialCtx m)
             \<lparr>goneRepos := repositories m,
              goneExcRepos := map (\<lambda>n. \<lparr>name = n\<rparr>) (excludedRepositories m)\<rparr>;
           emptied = m\<lparr>repositories := [], excludedRepositories := []\<rparr>
       in pipeline [fetchCandidateRepos e, categorizeRepos] (initialCtx m)
            = ([ListForOrg ty], Some (Inr c1)) \<and>
          do_update_manifest e m =
            (if gone = [] then ([ListForOrg ty], Some (Inr c1))
             else if removeAnswer e \<noteq> ''y'' then ([ListForOrg ty, PromptYesNo gone], Some (Inr c1))
             else ([ListForOrg ty, PromptYesNo gone, WriteFile emptied],
                   Some (if removeWriteOk e then Inr (c1\<lparr>manifest := emptied\<rparr>)
                         else Inl WriteError)))))"
proof (intro conjI impI)
  assume "searchType (repoCandidateSearch m) = Some ty \<and> listForOrg e = Inl status"
  then show "do_update_manifest e m = ([ListForOrg ty], Some (Inl (GitHubApiError status)))"
    by (simp add: do_update_manifest_def fetchCandidateRepos_def initialCtx_def)
next
  assume a: "searchType (repoCandidateSearch m) = Some ty \<and> listForOrg e = Inr cands \<and>
      (if \<not> includeArchived (repoCandidateSearch m) then filter (\<lambda>repo. \<not> archived repo) cands
       else cands) = [] \<and>
      (\<forall>n\<in>set (map name (repositories m)) \<union> set (excludedRepositories m).
          n \<notin> set objectPrototypeKeys)"
  let ?c1 = "(initialCtx m)
             \<lparr>goneRepos := repositories m,
              goneExcRepos := map (\<lambda>n. \<lparr>name = n\<rparr>) (excludedRepositories m)\<rparr>"
  let ?gone = "map name (repositories m) @ excludedRepositories m"
  let ?emptied = "m\<lparr>repositories := [], excludedRepositories := []\<rparr>"
  from a have f: "fetchCandidateRepos e (initialCtx m) = ([ListForOrg ty], Some (Inr (initialCtx m)))"
    by (auto simp: fetchCandidateRepos_def initialCtx_def)
  from a have g1: "filter (\<lambda>r. name r \<notin> set objectPrototypeKeys) (repositories m) = repositories m"
    by (auto simp: filter_id_conv)
  from a have g2: "filter (\<lambda>n. n \<notin> set objectPrototypeKeys) (excludedRepositories m)
      = excludedRepositories m"
    by (auto simp: filter_id_conv)
  have "categorizeRepos (initialCtx m) =
      ([], Some (Inr ((initialCtx m)
        \<lparr>goneRepos := filter (\<lambda>r. name r \<notin> set objectPrototypeKeys) (repositories (manifest (initialCtx m))),
         goneExcRepos :=
           map (\<lambda>n. \<lparr>name = n\<rparr>)
             (filter (\<lambda>n. n \<notin> set objectPrototypeKeys) (excludedRepositories (manifest (initialCtx m)))),
         newRepos := []\<rparr>)))"
    by (rule categorizeRepos_no_candidates) (simp add: initialCtx_def)
  then have c: "categorizeRepos (initialCtx m) = ([], Some (Inr ?c1))"
    using g1 g2 by (simp add: initialCtx_def)
  have two: "pipeline [fetchCandidateRepos e, categorizeRepos] (initialCtx m)
      = ([ListForOrg ty], Some (Inr ?c1))"
    by (simp add: f c)
  have f1: "filter (\<lambda>r. name r \<notin> name ` set (repositories m)) (repositories m) = []"
    by (auto simp: filter_empty_conv)
  have f2: "filter (\<lambda>n. n \<notin> set (excludedRepositories m)) (excludedRepositories m) = []"
    by (auto simp: filter_empty_conv)
  have rest: "pipeline (curationStages e) ?c1 =
      (if ?gone = [] then ([], Some (Inr ?c1))
       else if removeAnswer e \<noteq> ''y'' then ([PromptYesNo ?gone], Some (Inr ?c1))
       else ([PromptYesNo ?gone, WriteFile ?emptied],
             Some (if removeWriteOk e then Inr (?c1\<lparr>manifest := ?emptied\<rparr>) else Inl WriteError)))"
    by (simp add: curationStages_def removeGoneRepos_def confirmAddNewRepos_def
          addNewIncludedRepos_def confirmAddNewExcludedRepos_def addNewExcludedRepos_def
          saveManifest_def initialCtx_def Let_def o_def f1 f2)
  have run: "do_update_manifest e m =
      ([ListForOrg ty] @ fst (pipeline (curationStages e) ?c1), snd (pipeline (curationStages e) ?c1))"
    unfolding do_update_manifest_def
    using pipeline_append [OF two, of "curationStages e"] by simp
  show "let gone = map name (repositories m) @ excludedRepositories m;
           c1 = (initialCtx m)
             \<lparr>goneRepos := repositories m,
              goneExcRepos := map (\<lambda>n. \<lparr>name = n\<rparr>) (excludedRepositories m)\<rparr>;
           emptied = m\<lparr>repositories := [], excludedRepositories := []\<rparr>
       in pipeline [fetchCandidateRepos e, categorizeRepos] (initialCtx m)
            = ([ListForOrg ty], Some (Inr c1)) \<and>
          do_update_manifest e m =
            (if gone = [] then ([ListForOrg ty], Some (Inr c1))
             else if removeAnswer e \<noteq> ''y'' then ([ListForOrg ty, PromptYesNo gone], Some (Inr c1))
             else ([ListForOrg ty, PromptYesNo gone, WriteFile emptied],
                   Some (if removeWriteOk e then Inr (c1\<lparr>manifest := emptied\<rparr>)
                         else Inl WriteError)))"
    unfolding Let_def run rest using two by simp
qed

theorem unreachable_source_fails_empty_source_proceeds_witness:
  "do_update_manifest (exampleEnv\<lparr>listForOrg := Inl 503\<rparr>) exampleManifest
     = ([ListForOrg ''public''], Some (Inl (GitHubApiError 503))) \<and>
   fst (do_update_manifest
          (exampleEnv\<lparr>listForOrg := Inr [\<lparr>name = ''d'', archived = True, otherProperties = []\<rparr>]\<rparr>)
          exampleManifest)
     = [ListForOrg ''public'', PromptYesNo [''a'', ''b'', ''x''],
        WriteFile (exampleManifest\<lparr>repositories := [], excludedRepositories := []\<rparr>)] \<and>
   fst (do_update_manifest
          (exampleEnv\<lparr>listForOrg := Inr [\<lparr>name = ''d'', archived = True, otherProperties = []\<rparr>],
                      removeAnswer := ''n''\<rparr>)
          exampleManifest)
     = [ListForOrg ''public'', PromptYesNo [''a'', ''b'', ''x'']]"
  using unreachable_source_fails_empty_source_proceeds
      [of exampleManifest "''public''" "exampleEnv\<lparr>listForOrg := Inl 503\<rparr>" 503]
    unreachable_source_fails_empty_source_proceeds
      [of exampleManifest "''public''"
          "exampleEnv\<lparr>listForOrg := Inr [\<lparr>name = ''d'', archived = True, otherProperties = []\<rparr>]\<rparr>"
          _ "[\<lparr>name = ''d'', archived = True, otherProperties = []\<rparr>]"]
    unreachable_source_fails_empty_source_proceeds
      [of exampleManifest "''public''"
          "exampleEnv\<lparr>listForOrg := Inr [\<lparr>name = ''d'', archived = True, otherProperties = []\<rparr>],
                      removeAnswer := ''n''\<rparr>"
          _ "[\<lparr>name = ''d'', archived = True, otherProperties = []\<rparr>]"]
  by (simp add: exampleEnv_def exampleManifest_def objectPrototypeKeys_def Let_def)

text \<open>
  The claim as stated fails: on an empty listing the example run does not end with an
  error; it asks to remove every tracked repo and excluded name and, on \<open>y\<close>, writes the
  emptied manifest.
\<close>

theorem empty_listing_marks_everything_gone:
  "fst (do_update_manifest (exampleEnv\<lparr>listForOrg := Inr []\<rparr>) exampleManifest)
     = [ListForOrg ''public'', PromptYesNo [''a'', ''b'', ''x''],
        WriteFile (exampleManifest\<lparr>repositories := [], excludedRepositories := []\<rparr>)] \<and>
   (\<forall>err. snd (do_update_manifest (exampleEnv\<lparr>listForOrg := Inr []\<rparr>) exampleManifest) \<noteq> Some (Inl err))"
  by (simp add: session_eval)

section \<open>The edit and retry loop\<close>

lemma parseLoop_error:
  "parseLoop pl i ls acc = Inl err \<Longrightarrow> \<exists>n s. err = FormatError n s \<and> i < n"
proof (induction ls arbitrary: i acc)
  case Nil
  then show ?case by simp
next
  case (Cons l ls)
  show ?case
  proof (cases "trim l")
    case Nil
    with Cons.prems have "parseLoop pl (i + 1) ls acc = Inl err" by simp
    from Cons.IH [OF this] show ?thesis by auto
  next
    case c: (Cons c cs)
    show ?thesis
    proof (cases "c = CHR ''#''")
      case True
      with c Cons.prems have "parseLoop pl (i + 1) ls acc = Inl err" by simp
      from Cons.IH [OF this] show ?thesis by auto
    next
      case False
      show ?thesis
      proof (cases "take (length JOYENT_REPO_BASE_URL) (c # cs) = JOYENT_REPO_BASE_URL")
        case True
        with c False Cons.prems
        have "parseLoop pl (i + 1) ls (acc @ [parseRepoLine pl (c # cs)]) = Inl err" by simp
        from Cons.IH [OF this] show ?thesis by auto
      next
        case nourl: False
        with c False Cons.prems show ?thesis by auto
      qed
    qed
  qed
qed

lemma parse_error_has_line:
  "parseReposForm t pl = Inl err \<Longrightarrow> \<exists>n s. err = FormatError n s \<and> 0 < n"
  unfolding parseReposForm_def using parseLoop_error by fastforce

lemma editAttempt_retry:
  assumes "parseReposForm t pl = Inl (FormatError k l)" "0 < k"
  shows "editAttempt pl fn tx lno ((EditedText t, True) # script) =
         (EditInEditor tx lno fn # PromptEnter ReEdit # fst (editAttempt pl fn t (Some k) script),
          snd (editAttempt pl fn t (Some k) script))"
  using assms by (simp add: Let_def split: prod.splits)

lemma editAttempt_result:
  "snd (editAttempt pl fn tx lno script) = Some r \<Longrightarrow>
     (\<exists>t repos. r = Inr repos \<and> EditedText t \<in> fst ` set script \<and> parseReposForm t pl = Inr repos)
     \<or> r = Inl EditorCancelled \<or> r = Inl Aborted"
proof (induction script arbitrary: tx lno)
  case Nil
  then show ?case by simp
next
  case (Cons a script)
  obtain reply retry where a: "a = (reply, retry)" by (cases a)
  show ?case
  proof (cases reply)
    case EditErr
    with Cons.prems a show ?thesis by simp
  next
    case (EditedText t)
    show ?thesis
    proof (cases "parseReposForm t pl")
      case (Inr repos)
      with Cons.prems a EditedText have "r = Inr repos" by simp
      with Inr a EditedText show ?thesis by force
    next
      case (Inl err)
      show ?thesis
      proof (cases retry)
        case False
        with Cons.prems a EditedText Inl show ?thesis by simp
      next
        case True
        from Inl obtain k l where e: "err = FormatError k l" "0 < k"
          using parse_error_has_line by blast
        with Cons.prems a EditedText Inl True
        have "snd (editAttempt pl fn t (Some k) script) = Some r"
          by (simp add: Let_def split: prod.splits)
        from Cons.IH [OF this] show ?thesis by auto
      qed
    qed
  qed
qed

lemma editAttempt_all_fail:
  "\<forall>t\<in>set bad. \<exists>err. parseReposForm t pl = Inl err \<Longrightarrow>
   snd (editAttempt pl fn tx lno (map (\<lambda>t. (EditedText t, True)) bad)) = None \<and>
   editorCalls (fst (editAttempt pl fn tx lno (map (\<lambda>t. (EditedText t, True)) bad))) = length bad + 1"
proof (induction bad arbitrary: tx lno)
  case Nil
  then show ?case by (simp add: editorCalls_def)
next
  case (Cons t bad)
  then obtain err where "parseReposForm t pl = Inl err" by auto
  then obtain k l where e: "parseReposForm t pl = Inl (FormatError k l)" "0 < k"
    using parse_error_has_line by blast
  have ih: "snd (editAttempt pl fn t (Some k) (map (\<lambda>t. (EditedText t, True)) bad)) = None \<and>
   editorCalls (fst (editAttempt pl fn t (Some k) (map (\<lambda>t. (EditedText t, True)) bad))) = length bad + 1"
    using Cons by simp
  show ?case
    using ih by (simp add: editAttempt_retry [OF e] editorCalls_def del: editAttempt.simps)
qed

lemma editAttempt_returns:
  "\<exists>a\<in>set script. fst a = EditErr \<or> \<not> snd a \<or> (\<exists>t repos. fst a = EditedText t \<and> parseReposForm t pl = Inr repos)
   \<Longrightarrow> snd (editAttempt pl fn tx lno script) \<noteq> None"
proof (induction script arbitrary: tx lno)
  case Nil
  then show ?case by simp
next
  case (Cons a script)
  obtain reply retry where a: "a = (reply, retry)" by (cases a)
  show ?case
  proof (cases reply)
    case EditErr
    with a show ?thesis by simp
  next
    case (EditedText t)
    show ?thesis
    proof (cases "parseReposForm t pl")
      case (Inr repos)
      with a EditedText show ?thesis by simp
    next
      case (Inl err)
      show ?thesis
      proof (cases retry)
        case False
        with a EditedText Inl show ?thesis by simp
      next
        case True
        with Cons.prems a EditedText Inl
        have "\<exists>a\<in>set script. fst a = EditErr \<or> \<not> snd a \<or> (\<exists>t repos. fst a = EditedText t \<and> parseReposForm t pl = Inr repos)"
          by auto
        then have ih: "snd (editAttempt pl fn tx' lno' script) \<noteq> None" for tx' lno'
          by (rule Cons.IH)
        from Inl obtain k l where e: "parseReposForm t pl = Inl (FormatError k l)" "0 < k"
          using parse_error_has_line by blast
        show ?thesis
          using ih [of t "Some k"] a EditedText True
          by (simp add: editAttempt_retry [OF e] del: editAttempt.simps)
      qed
    qed
  qed
qed

text \<open>
  Claim C6. The edit loop hands to its caller either the repos parsed from one of the
  edited texts, or the cancellation of the editor, or the abort at the retry question,
  and never a parse error of a form text. A text that does not parse, followed by Enter
  at the retry question, starts the next attempt: the editor is called again on the
  edited text, at the line of the error (which is at least 1). There is no bound on the
  attempts: after any number of texts that do not parse, each followed by Enter, the
  editor has been called once more than that and the loop has not returned. It returns
  as soon as the editor is cancelled, a text parses, or the retry question is answered
  with Ctrl+C.
\<close>

theorem edit_loop_exits:
  "(snd (editAttempt pl fn tx lno script) = Some r \<longrightarrow>
      (\<exists>t repos. r = Inr repos \<and> EditedText t \<in> fst ` set script \<and> parseReposForm t pl = Inr repos)
      \<or> r = Inl EditorCancelled \<or> r = Inl Aborted) \<and>
   snd (editAttempt pl fn tx lno script) \<noteq> Some (Inl (FormatError n s)) \<and>
   (parseReposForm t pl = Inl err \<longrightarrow>
      (\<exists>k l. err = FormatError k l \<and> 0 < k \<and>
         editAttempt pl fn tx lno ((EditedText t, True) # script) =
           (EditInEditor tx lno fn # PromptEnter ReEdit # fst (editAttempt pl fn t (Some k) script),
            snd (editAttempt pl fn t (Some k) script)))) \<and>
   ((\<forall>t\<in>set bad. \<exists>err. parseReposForm t pl = Inl err) \<longrightarrow>
      snd (editAttempt pl fn tx lno (map (\<lambda>t. (EditedText t, True)) bad)) = None \<and>
      editorCalls (fst (editAttempt pl fn tx lno (map (\<lambda>t. (EditedText t, True)) bad))) = length bad + 1) \<and>
   ((\<exists>a\<in>set script. fst a = EditErr \<or> \<not> snd a
        \<or> (\<exists>t repos. fst a = EditedText t \<and> parseReposForm t pl = Inr repos))
      \<longrightarrow> snd (editAttempt pl fn tx lno script) \<noteq> None)"
proof (intro conjI impI)
  assume "snd (editAttempt pl fn tx lno script) = Some r"
  then show "(\<exists>t repos. r = Inr repos \<and> EditedText t \<in> fst ` set script \<and> parseReposForm t pl = Inr repos)
      \<or> r = Inl EditorCancelled \<or> r = Inl Aborted"
    by (rule editAttempt_result)
next
  show "snd (editAttempt pl fn tx lno script) \<noteq> Some (Inl (FormatError n s))"
    using editAttempt_result [of pl fn tx lno script "Inl (FormatError n s)"] by auto
next
  assume e: "parseReposForm t pl = Inl err"
  then obtain k l where "err = FormatError k l" "0 < k"
    using parse_error_has_line by blast
  with e show "\<exists>k l. err = FormatError k l \<and> 0 < k \<and>
         editAttempt pl fn tx lno ((EditedText t, True) # script) =
           (EditInEditor tx lno fn # PromptEnter ReEdit # fst (editAttempt pl fn t (Some k) script),
            snd (editAttempt pl fn t (Some k) script))"
    using editAttempt_retry by blast
next
  assume "\<forall>t\<in>set bad. \<exists>err. parseReposForm t pl = Inl err"
  then show "snd (editAttempt pl fn tx lno (map (\<lambda>t. (EditedText t, True)) bad)) = None"
    and "editorCalls (fst (editAttempt pl fn tx lno (map (\<lambda>t. (EditedText t, True)) bad))) = length bad + 1"
    using editAttempt_all_fail by blast+
next
  assume "\<exists>a\<in>set script. fst a = EditErr \<or> \<not> snd a
        \<or> (\<exists>t repos. fst a = EditedText t \<and> parseReposForm t pl = Inr repos)"
  then show "snd (editAttempt pl fn tx lno script) \<noteq> None"
    by (rule editAttempt_returns)
qed

theorem edit_loop_exits_witness:
  "editAttempt True ''f'' ''# form'' (Some 5) (includeEdits exampleEnv)
     = ([EditInEditor ''# form'' (Some 5) ''f'', PromptEnter ReEdit,
         EditInEditor ''not-a-valid-url'' (Some 1) ''f''],
        Some (Inr [\<lparr>name = ''c'', labels = Some [''x'' \<mapsto> LNum (Num 1), ''y'' \<mapsto> LBool True]\<rparr>])) \<and>
   editAttempt True ''f'' ''# form'' (Some 5) [(EditedText ''x'', True), (EditedText ''y'', False)]
     = ([EditInEditor ''# form'' (Some 5) ''f'', PromptEnter ReEdit,
         EditInEditor ''x'' (Some 1) ''f'', PromptEnter ReEdit], Some (Inl Aborted)) \<and>
   editAttempt True ''f'' ''# form'' (Some 5) [(EditedText ''x'', True), (EditedText ''y'', True)]
     = ([EditInEditor ''# form'' (Some 5) ''f'', PromptEnter ReEdit,
         EditInEditor ''x'' (Some 1) ''f'', PromptEnter ReEdit,
         EditInEditor ''y'' (Some 1) ''f''], None)"
  using edit_loop_exits [of True "''f''" "''# form''" "Some 5" "includeEdits exampleEnv"
      "Inr [\<lparr>name = ''c'', labels = Some [''x'' \<mapsto> LNum (Num 1), ''y'' \<mapsto> LBool True]\<rparr>]" 1 "''x''"
      "''x''" "FormatError 1 ''x''" "[''x'', ''y'']"]
  by (simp add: exampleEnv_def line_eval parseRepoLine_def label_eval number_eval)



section \<open>Events and answer of the edit loop\<close>

lemma editAttempt_events:
  "ev \<in> set (fst (editAttempt pl fn tx lno script)) \<Longrightarrow>
   ev = PromptEnter ReEdit \<or> (\<exists>t l. ev = EditInEditor t l fn)"
proof (induction script arbitrary: tx lno)
  case Nil
  then show ?case by simp
next
  case (Cons a script)
  obtain reply retry where a: "a = (reply, retry)" by (cases a)
  show ?case
  proof (cases reply)
    case EditErr
    with Cons.prems a show ?thesis by simp
  next
    case (EditedText t)
    show ?thesis
    proof (cases "parseReposForm t pl")
      case (Inr repos)
      with Cons.prems a EditedText show ?thesis by simp
    next
      case (Inl err)
      then obtain k l where e: "parseReposForm t pl = Inl (FormatError k l)" "0 < k"
        using parse_error_has_line by blast
      show ?thesis
      proof (cases retry)
        case False
        with Cons.prems a EditedText Inl show ?thesis by auto
      next
        case True
        with Cons.prems a EditedText
        have "ev = EditInEditor tx lno fn \<or> ev = PromptEnter ReEdit
            \<or> ev \<in> set (fst (editAttempt pl fn t (Some k) script))"
          by (simp add: editAttempt_retry [OF e] del: editAttempt.simps)
        then show ?thesis using Cons.IH by blast
      qed
    qed
  qed
qed

lemma editAttempt_no_write: "written (fst (editAttempt pl fn tx lno script)) = []"
proof -
  have "\<forall>ev\<in>set (fst (editAttempt pl fn tx lno script)). (case ev of WriteFile m \<Rightarrow> [m] | _ \<Rightarrow> []) = []"
    using editAttempt_events by fastforce
  then show ?thesis
    unfolding written_def by (induction "fst (editAttempt pl fn tx lno script)") auto
qed

lemma editAttempt_answer:
  "snd (editAttempt pl fn tx lno script) = editAnswer pl script"
  unfolding editAnswer_def
proof (induction script arbitrary: tx lno fn)
  case Nil
  then show ?case by simp
next
  case (Cons a script)
  obtain reply retry where a: "a = (reply, retry)" by (cases a)
  show ?case
  proof (cases reply)
    case EditErr
    with a show ?thesis by simp
  next
    case (EditedText t)
    show ?thesis
    proof (cases "parseReposForm t pl")
      case (Inr repos)
      with a EditedText show ?thesis by simp
    next
      case (Inl err)
      then obtain k l where e: "parseReposForm t pl = Inl (FormatError k l)" "0 < k"
        using parse_error_has_line by blast
      show ?thesis
      proof (cases retry)
        case False
        with a EditedText Inl show ?thesis by simp
      next
        case True
        have "snd (editAttempt pl fn t (Some k) script) = snd (editAttempt pl [] [] None script)"
          by (rule Cons.IH)
        moreover have "snd (editAttempt pl [] t (Some k) script) = snd (editAttempt pl [] [] None script)"
          by (rule Cons.IH)
        ultimately show ?thesis
          using a EditedText True
          by (simp add: editAttempt_retry [OF e] del: editAttempt.simps)
      qed
    qed
  qed
qed

lemma editRepos_answer:
  "snd (editReposInEditor fm fn repos pl script) = editAnswer pl script"
  by (simp add: editReposInEditor_def Let_def editAttempt_answer)

lemma editRepos_no_write: "written (fst (editReposInEditor fm fn repos pl script)) = []"
  by (simp add: editReposInEditor_def Let_def editAttempt_no_write)

lemma editRepos_events:
  "ev \<in> set (fst (editReposInEditor fm fn repos pl script)) \<Longrightarrow>
   ev = PromptEnter ReEdit \<or> (\<exists>t l. ev = EditInEditor t l fn)"
  unfolding editReposInEditor_def Let_def by (rule editAttempt_events)

lemma editAnswer_error:
  "editAnswer pl script = Some (Inl err) \<Longrightarrow> err = EditorCancelled \<or> err = Aborted"
  unfolding editAnswer_def using editAttempt_result [of pl "[]" "[]" None script "Inl err"] by auto

section \<open>How the two edit stages end\<close>

lemma addNewIncludedRepos_cases:
  assumes "addNewRepos c"
  shows "(editAnswer True (includeEdits e) = None \<longrightarrow>
            snd (addNewIncludedRepos e c) = None \<and> written (fst (addNewIncludedRepos e c)) = []) \<and>
         (editAnswer True (includeEdits e) = Some (Inl err) \<longrightarrow>
            snd (addNewIncludedRepos e c) = Some (Inl err) \<and> written (fst (addNewIncludedRepos e c)) = []) \<and>
         (editAnswer True (includeEdits e) = Some (Inr []) \<longrightarrow>
            snd (addNewIncludedRepos e c) = Some (Inr c) \<and> written (fst (addNewIncludedRepos e c)) = []) \<and>
         (editAnswer True (includeEdits e) = Some (Inr repos) \<and> repos \<noteq> [] \<longrightarrow>
            written (fst (addNewIncludedRepos e c)) =
              [(manifest c)\<lparr>repositories := sortArrayOfObjects (repositories (manifest c) @ repos)\<rparr>] \<and>
            snd (addNewIncludedRepos e c) =
              Some (if includeWriteOk e
                    then Inr (c\<lparr>manifest := (manifest c)\<lparr>repositories := sortArrayOfObjects (repositories (manifest c) @ repos)\<rparr>,
                                remainingRepos := filter (\<lambda>r. name r \<notin> set (map name repos)) (remainingRepos c)\<rparr>)
                    else Inl WriteError))"
proof -
  let ?ed = "editReposInEditor (includeFrontMatter (numberToString e) (manifest c))
                ''newIncludeRepos'' (remainingRepos c) True (includeEdits e)"
  obtain ev r where ed: "?ed = (ev, r)" by (cases ?ed)
  have r: "r = editAnswer True (includeEdits e)"
    using editRepos_answer [of "includeFrontMatter (numberToString e) (manifest c)"
        "''newIncludeRepos''" "remainingRepos c" True "includeEdits e"] ed by simp
  have w: "written ev = []"
    using editRepos_no_write [of "includeFrontMatter (numberToString e) (manifest c)"
        "''newIncludeRepos''" "remainingRepos c" True "includeEdits e"] ed by simp
  show ?thesis
    using assms w
    by (auto simp: addNewIncludedRepos_def ed r [symmetric] saveManifest_def Let_def written_append)
       (simp_all add: written_def)
qed

lemma addNewExcludedRepos_cases:
  assumes "addNewExcludedReposFlag c"
  shows "(editAnswer False (excludeEdits e) = None \<longrightarrow>
            snd (addNewExcludedRepos e c) = None \<and> written (fst (addNewExcludedRepos e c)) = []) \<and>
         (editAnswer False (excludeEdits e) = Some (Inl err) \<longrightarrow>
            snd (addNewExcludedRepos e c) = Some (Inl err) \<and> written (fst (addNewExcludedRepos e c)) = []) \<and>
         (editAnswer False (excludeEdits e) = Some (Inr []) \<longrightarrow>
            snd (addNewExcludedRepos e c) = Some (Inr c) \<and> written (fst (addNewExcludedRepos e c)) = []) \<and>
         (editAnswer False (excludeEdits e) = Some (Inr repos) \<and> repos \<noteq> [] \<longrightarrow>
            written (fst (addNewExcludedRepos e c)) =
              [(manifest c)\<lparr>excludedRepositories := sort (excludedRepositories (manifest c) @ map name repos)\<rparr>] \<and>
            snd (addNewExcludedRepos e c) =
              Some (if excludeWriteOk e
                    then Inr (c\<lparr>manifest := (manifest c)\<lparr>excludedRepositories := sort (excludedRepositories (manifest c) @ map name repos)\<rparr>\<rparr>)
                    else Inl WriteError))"
proof -
  let ?ed = "editReposInEditor excludeFrontMatter ''newExcludeRepos'' (remainingRepos c) False (excludeEdits e)"
  obtain ev r where ed: "?ed = (ev, r)" by (cases ?ed)
  have r: "r = editAnswer False (excludeEdits e)"
    using editRepos_answer [of excludeFrontMatter "''newExcludeRepos''" "remainingRepos c" False "excludeEdits e"] ed
    by simp
  have w: "written ev = []"
    using editRepos_no_write [of excludeFrontMatter "''newExcludeRepos''" "remainingRepos c" False "excludeEdits e"] ed
    by simp
  show ?thesis
    using assms w
    by (auto simp: addNewExcludedRepos_def ed r [symmetric] saveManifest_def Let_def written_append)
       (simp_all add: written_def)
qed

lemma addNewIncludedRepos_events:
  "ev \<in> set (fst (addNewIncludedRepos e c)) \<Longrightarrow>
   ev = PromptEnter ReEdit \<or> (\<exists>t l. ev = EditInEditor t l ''newIncludeRepos'') \<or> (\<exists>m. ev = WriteFile m)"
proof -
  let ?ed = "editReposInEditor (includeFrontMatter (numberToString e) (manifest c))
                ''newIncludeRepos'' (remainingRepos c) True (includeEdits e)"
  assume a: "ev \<in> set (fst (addNewIncludedRepos e c))"
  obtain evs r where ed: "?ed = (evs, r)" by (cases ?ed)
  have "ev \<in> set evs \<or> (\<exists>m. ev = WriteFile m)"
    using a
    by (auto simp: addNewIncludedRepos_def ed saveManifest_def Let_def
          split: if_splits option.splits sum.splits)
  moreover have "ev \<in> set evs \<Longrightarrow> ev = PromptEnter ReEdit \<or> (\<exists>t l. ev = EditInEditor t l ''newIncludeRepos'')"
    using editRepos_events [of ev "includeFrontMatter (numberToString e) (manifest c)"
        "''newIncludeRepos''" "remainingRepos c" True "includeEdits e"] ed by simp
  ultimately show ?thesis by blast
qed



section \<open>Declining and aborting\<close>

text \<open>
  Claim C4, as amended. Declining the removal question skips only the removal: the later
  stages run on the unchanged context. Ctrl+C at the question of the inclusion stage skips
  that stage and, with it, the exclusion stage (whose precondition is that the inclusion
  stage was entered); Ctrl+C at the question of the exclusion stage skips that stage; in
  both cases the run ends without error. An abort inside an edit session (Ctrl+C at the
  retry question, or the cancellation of the editor) ends the whole run with that error:
  no later stage runs, in particular the exclusion stage does not run after an aborted
  inclusion edit. None of these writes the manifest, and what earlier stages wrote stays
  in front of whatever the later stages write.
\<close>

theorem decline_skips_stage_abort_ends_run:
  "(removeAnswer e \<noteq> ''y'' \<longrightarrow>
      pipeline (removeGoneRepos e # rest) c =
        (fst (removeGoneRepos e c) @ fst (pipeline rest c), snd (pipeline rest c))
      \<and> written (fst (removeGoneRepos e c)) = []) \<and>
   (\<not> includeEnter e \<longrightarrow>
      snd (pipeline [confirmAddNewRepos e, addNewIncludedRepos e, confirmAddNewExcludedRepos e,
                     addNewExcludedRepos e] c)
        = Some (Inr (c\<lparr>addNewRepos := False, addNewExcludedReposFlag := False\<rparr>))
      \<and> written (fst (pipeline [confirmAddNewRepos e, addNewIncludedRepos e,
                                 confirmAddNewExcludedRepos e, addNewExcludedRepos e] c)) = []) \<and>
   (\<not> excludeEnter e \<longrightarrow>
      snd (pipeline [confirmAddNewExcludedRepos e, addNewExcludedRepos e] c)
        = Some (Inr (c\<lparr>addNewExcludedReposFlag := False\<rparr>))
      \<and> written (fst (pipeline [confirmAddNewExcludedRepos e, addNewExcludedRepos e] c)) = []) \<and>
   (addNewRepos c \<and> editAnswer True (includeEdits e) = Some (Inl err) \<longrightarrow>
      (err = Aborted \<or> err = EditorCancelled)
      \<and> pipeline (addNewIncludedRepos e # rest) c = addNewIncludedRepos e c
      \<and> snd (addNewIncludedRepos e c) = Some (Inl err)
      \<and> written (fst (addNewIncludedRepos e c)) = []
      \<and> PromptEnter EditExclusions \<notin> set (fst (addNewIncludedRepos e c))) \<and>
   (addNewExcludedReposFlag c \<and> editAnswer False (excludeEdits e) = Some (Inl err) \<longrightarrow>
      (err = Aborted \<or> err = EditorCancelled)
      \<and> pipeline (addNewExcludedRepos e # rest) c = addNewExcludedRepos e c
      \<and> snd (addNewExcludedRepos e c) = Some (Inl err)
      \<and> written (fst (addNewExcludedRepos e c)) = []) \<and>
   (pipeline fs c = (evs, Some (Inr c')) \<longrightarrow>
      written (fst (pipeline (fs @ gs) c)) = written evs @ written (fst (pipeline gs c')))"
proof (intro conjI impI)
  assume a: "removeAnswer e \<noteq> ''y''"
  then have s: "snd (removeGoneRepos e c) = Some (Inr c)"
    by (simp add: removeGoneRepos_def Let_def)
  then show "pipeline (removeGoneRepos e # rest) c =
        (fst (removeGoneRepos e c) @ fst (pipeline rest c), snd (pipeline rest c))"
    by (rule pipeline_goes_on)
  from a show "written (fst (removeGoneRepos e c)) = []"
    by (simp add: removeGoneRepos_def Let_def written_def)
next
  assume a: "\<not> includeEnter e"
  then show "snd (pipeline [confirmAddNewRepos e, addNewIncludedRepos e, confirmAddNewExcludedRepos e,
                     addNewExcludedRepos e] c)
        = Some (Inr (c\<lparr>addNewRepos := False, addNewExcludedReposFlag := False\<rparr>))"
    by (simp add: confirmAddNewRepos_def addNewIncludedRepos_def confirmAddNewExcludedRepos_def
          addNewExcludedRepos_def Let_def)
  from a show "written (fst (pipeline [confirmAddNewRepos e, addNewIncludedRepos e,
                                 confirmAddNewExcludedRepos e, addNewExcludedRepos e] c)) = []"
    by (simp add: confirmAddNewRepos_def addNewIncludedRepos_def confirmAddNewExcludedRepos_def
          addNewExcludedRepos_def Let_def written_def)
next
  assume a: "\<not> excludeEnter e"
  then show "snd (pipeline [confirmAddNewExcludedRepos e, addNewExcludedRepos e] c)
        = Some (Inr (c\<lparr>addNewExcludedReposFlag := False\<rparr>))"
    by (simp add: confirmAddNewExcludedRepos_def addNewExcludedRepos_def)
  from a show "written (fst (pipeline [confirmAddNewExcludedRepos e, addNewExcludedRepos e] c)) = []"
    by (simp add: confirmAddNewExcludedRepos_def addNewExcludedRepos_def written_def)
next
  assume a: "addNewRepos c \<and> editAnswer True (includeEdits e) = Some (Inl err)"
  then show "err = Aborted \<or> err = EditorCancelled"
    using editAnswer_error by blast
  from a have s: "snd (addNewIncludedRepos e c) = Some (Inl err)"
    and w: "written (fst (addNewIncludedRepos e c)) = []"
    using addNewIncludedRepos_cases [of c e err] by auto
  from s show "snd (addNewIncludedRepos e c) = Some (Inl err)" .
  from w show "written (fst (addNewIncludedRepos e c)) = []" .
  from s show "pipeline (addNewIncludedRepos e # rest) c = addNewIncludedRepos e c"
    by (intro pipeline_stops) auto
  show "PromptEnter EditExclusions \<notin> set (fst (addNewIncludedRepos e c))"
    using addNewIncludedRepos_events [of "PromptEnter EditExclusions" e c] by auto
next
  assume a: "addNewExcludedReposFlag c \<and> editAnswer False (excludeEdits e) = Some (Inl err)"
  then show "err = Aborted \<or> err = EditorCancelled"
    using editAnswer_error by blast
  from a have s: "snd (addNewExcludedRepos e c) = Some (Inl err)"
    and w: "written (fst (addNewExcludedRepos e c)) = []"
    using addNewExcludedRepos_cases [of c e err] by auto
  from s show "snd (addNewExcludedRepos e c) = Some (Inl err)" .
  from w show "written (fst (addNewExcludedRepos e c)) = []" .
  from s show "pipeline (addNewExcludedRepos e # rest) c = addNewExcludedRepos e c"
    by (intro pipeline_stops) auto
next
  assume "pipeline fs c = (evs, Some (Inr c'))"
  then show "written (fst (pipeline (fs @ gs) c)) = written evs @ written (fst (pipeline gs c'))"
    by (simp add: pipeline_append written_append)
qed

lemmas loop_eval = editAnswer_def line_eval parseRepoLine_def label_eval number_eval

text \<open>
  In the example session with the removal declined, the inclusion and exclusion stages run
  as before; with the first edit session aborted at the retry question, the run ends
  there, after the write of the removal stage.
\<close>

theorem decline_skips_stage_abort_ends_run_witness:
  "map (\<lambda>m. (map name (repositories m), excludedRepositories m))
     (written (fst (do_update_manifest (exampleEnv\<lparr>removeAnswer := ''n''\<rparr>) exampleManifest)))
     = [([''a'', ''b'', ''c''], [''x'']), ([''a'', ''b'', ''c''], [''e'', ''x''])] \<and>
   map (\<lambda>m. (map name (repositories m), excludedRepositories m))
     (written (fst (do_update_manifest
        (exampleEnv\<lparr>includeEdits := [(EditedText ''not-a-valid-url'', False)]\<rparr>) exampleManifest)))
     = [([''a''], [])] \<and>
   snd (do_update_manifest
        (exampleEnv\<lparr>includeEdits := [(EditedText ''not-a-valid-url'', False)]\<rparr>) exampleManifest)
     = Some (Inl Aborted)"
  using decline_skips_stage_abort_ends_run
    [of "exampleEnv\<lparr>removeAnswer := ''n''\<rparr>" "[confirmAddNewRepos (exampleEnv\<lparr>removeAnswer := ''n''\<rparr>)]"
        "initialCtx exampleManifest" Aborted "[]" "[]" "initialCtx exampleManifest" "[]"]
    decline_skips_stage_abort_ends_run
    [of "exampleEnv\<lparr>includeEnter := False, excludeEnter := False,
           includeEdits := [(EditedText ''not-a-valid-url'', False)],
           excludeEdits := [(EditedText ''not-a-valid-url'', False)]\<rparr>" "[]"
        "(initialCtx exampleManifest)\<lparr>addNewRepos := True, addNewExcludedReposFlag := True\<rparr>" Aborted
        "[]" "[]" "(initialCtx exampleManifest)\<lparr>addNewRepos := True, addNewExcludedReposFlag := True\<rparr>" "[]"]
  by (simp add: session_eval loop_eval)

text \<open>
  Claim C4 as stated fails: when the edit session of the inclusion stage is aborted, the
  exclusion stage does not run although its preconditions hold (the inclusion stage was
  entered and candidates remain, and the user would press Enter at its question).
\<close>

theorem abort_in_edit_loop_skips_exclusion_stage:
  "snd (do_update_manifest
        (exampleEnv\<lparr>includeEdits := [(EditedText ''not-a-valid-url'', False)]\<rparr>) exampleManifest)
     = Some (Inl Aborted) \<and>
   PromptEnter EditExclusions \<notin> set (fst (do_update_manifest
        (exampleEnv\<lparr>includeEdits := [(EditedText ''not-a-valid-url'', False)]\<rparr>) exampleManifest)) \<and>
   (case snd (pipeline
          [fetchCandidateRepos exampleEnv, categorizeRepos, removeGoneRepos exampleEnv,
           confirmAddNewRepos exampleEnv] (initialCtx exampleManifest)) of
      Some (Inr c) \<Rightarrow>
        addNewRepos c \<and> map name (remainingRepos c) = [''c'', ''e'']
        \<and> fst (confirmAddNewExcludedRepos exampleEnv c) = [PromptEnter EditExclusions]
    | _ \<Rightarrow> False)"
  by (simp add: session_eval loop_eval)



section \<open>The invariant of the manifest\<close>

lemma distinct_map_insort:
  "distinct (map f (insort_key f x xs)) = (f x \<notin> f ` set xs \<and> distinct (map f xs))"
  by (induction xs) (auto simp: set_insort_key)

lemma distinct_map_sort: "distinct (map f (sort_key f xs)) = distinct (map f xs)"
  by (induction xs) (simp_all add: distinct_map_insort)

lemma accepted_of_answer: "editAnswer pl script = Some (Inr repos) \<Longrightarrow> accepted pl script = Some repos"
  by (simp add: accepted_def)

lemma accepted_answer: "accepted pl script = Some repos \<Longrightarrow> editAnswer pl script = Some (Inr repos)"
  by (auto simp: accepted_def split: option.splits sum.splits)

lemma invariant_after_removal:
  assumes "manifestInvariant m"
  shows "manifestInvariant (m\<lparr>repositories := filter p (repositories m),
                              excludedRepositories := filter q (excludedRepositories m)\<rparr>)"
  using assms by (auto simp: manifestInvariant_def distinct_map_filter)

text \<open>
  After an inclusion or an exclusion the invariant holds exactly when the added names are
  pairwise different and in neither list.
\<close>

lemma invariant_after_inclusion:
  assumes "manifestInvariant m"
  shows "manifestInvariant (m\<lparr>repositories := sortArrayOfObjects (repositories m @ A)\<rparr>)
           \<longleftrightarrow> freshNames (map name A) m"
  using assms
  by (auto simp: manifestInvariant_def freshNames_def sortArrayOfObjects_def distinct_map_sort)

lemma invariant_after_exclusion:
  assumes "manifestInvariant m"
  shows "manifestInvariant (m\<lparr>excludedRepositories := sort (excludedRepositories m @ map name X)\<rparr>)
           \<longleftrightarrow> freshNames (map name X) m"
  using assms by (auto simp: manifestInvariant_def freshNames_def)

text \<open>The stages that do not edit.\<close>

lemma keeps_fetch:
  "manifestInvariant (manifest c) \<Longrightarrow>
   list_all manifestInvariant (written (fst (fetchCandidateRepos e c))) \<and>
   (\<forall>c'. snd (fetchCandidateRepos e c) = Some (Inr c') \<longrightarrow> manifestInvariant (manifest c'))"
  by (auto simp: fetchCandidateRepos_def written_def split: option.splits sum.splits)

lemma keeps_categorize:
  "manifestInvariant (manifest c) \<Longrightarrow>
   list_all manifestInvariant (written (fst (categorizeRepos c))) \<and>
   (\<forall>c'. snd (categorizeRepos c) = Some (Inr c') \<longrightarrow> manifestInvariant (manifest c'))"
  by (auto simp: categorizeRepos_def Let_def written_def)

lemma keeps_remove:
  assumes "manifestInvariant (manifest c)"
  shows "list_all manifestInvariant (written (fst (removeGoneRepos e c))) \<and>
   (\<forall>c'. snd (removeGoneRepos e c) = Some (Inr c') \<longrightarrow> manifestInvariant (manifest c'))"
proof -
  let ?m = "(manifest c)
        \<lparr>repositories := filter (\<lambda>r. name r \<notin> set (map name (goneRepos c))) (repositories (manifest c)),
         excludedRepositories :=
           filter (\<lambda>n. n \<notin> set (map name (goneExcRepos c))) (excludedRepositories (manifest c))\<rparr>"
  from assms have "manifestInvariant ?m" by (rule invariant_after_removal)
  with assms show ?thesis
    by (auto simp: removeGoneRepos_def saveManifest_def written_def Let_def)
qed

lemma keeps_confirm:
  "manifestInvariant (manifest c) \<Longrightarrow>
   list_all manifestInvariant (written (fst (confirmAddNewRepos e c))) \<and>
   (\<forall>c'. snd (confirmAddNewRepos e c) = Some (Inr c') \<longrightarrow> manifestInvariant (manifest c'))"
  by (auto simp: confirmAddNewRepos_def written_def Let_def)

lemma keeps_confirm_exclusion:
  "manifestInvariant (manifest c) \<Longrightarrow>
   list_all manifestInvariant (written (fst (confirmAddNewExcludedRepos e c))) \<and>
   (\<forall>c'. snd (confirmAddNewExcludedRepos e c) = Some (Inr c') \<longrightarrow> manifestInvariant (manifest c'))"
  by (auto simp: confirmAddNewExcludedRepos_def written_def)

text \<open>The two stages that edit keep the invariant exactly when the accepted names are fresh.\<close>

lemma keeps_inclusion:
  assumes i: "manifestInvariant (manifest c)"
  shows "(list_all manifestInvariant (written (fst (addNewIncludedRepos e c))) \<and>
          (\<forall>c'. snd (addNewIncludedRepos e c) = Some (Inr c') \<longrightarrow> manifestInvariant (manifest c')))
         \<longleftrightarrow>
         (\<forall>A. addNewRepos c \<and> accepted True (includeEdits e) = Some A
               \<longrightarrow> freshNames (map name A) (manifest c))"
proof (cases "addNewRepos c")
  case False
  then show ?thesis using i by (simp add: addNewIncludedRepos_def written_def)
next
  case True
  note cases = addNewIncludedRepos_cases [OF True, of e]
  show ?thesis
  proof (cases "editAnswer True (includeEdits e)")
    case None
    then have "accepted True (includeEdits e) = None" by (simp add: accepted_def)
    with None cases show ?thesis by simp
  next
    case (Some x)
    show ?thesis
    proof (cases x)
      case (Inl err)
      with Some have "accepted True (includeEdits e) = None" by (simp add: accepted_def)
      with Some Inl cases [of err] show ?thesis by simp
    next
      case (Inr A)
      with Some have acc: "accepted True (includeEdits e) = Some A" by (simp add: accepted_def)
      show ?thesis
      proof (cases "A = []")
        case True
        with Some Inr cases i acc show ?thesis by (simp add: freshNames_def)
      next
        case False
        let ?m = "(manifest c)\<lparr>repositories := sortArrayOfObjects (repositories (manifest c) @ A)\<rparr>"
        have w: "written (fst (addNewIncludedRepos e c)) = [?m]"
          and r: "snd (addNewIncludedRepos e c) =
              Some (if includeWriteOk e
                    then Inr (c\<lparr>manifest := ?m,
                                remainingRepos := filter (\<lambda>r. name r \<notin> set (map name A)) (remainingRepos c)\<rparr>)
                    else Inl WriteError)"
          using Some Inr False cases [of _ A] by simp_all
        have "manifestInvariant ?m \<longleftrightarrow> freshNames (map name A) (manifest c)"
          using i by (rule invariant_after_inclusion)
        with w r True acc show ?thesis by auto
      qed
    qed
  qed
qed

lemma keeps_exclusion:
  assumes i: "manifestInvariant (manifest c)"
  shows "(list_all manifestInvariant (written (fst (addNewExcludedRepos e c))) \<and>
          (\<forall>c'. snd (addNewExcludedRepos e c) = Some (Inr c') \<longrightarrow> manifestInvariant (manifest c')))
         \<longleftrightarrow>
         (\<forall>X. addNewExcludedReposFlag c \<and> accepted False (excludeEdits e) = Some X
               \<longrightarrow> freshNames (map name X) (manifest c))"
proof (cases "addNewExcludedReposFlag c")
  case False
  then show ?thesis using i by (simp add: addNewExcludedRepos_def written_def)
next
  case True
  note cases = addNewExcludedRepos_cases [OF True, of e]
  show ?thesis
  proof (cases "editAnswer False (excludeEdits e)")
    case None
    then have "accepted False (excludeEdits e) = None" by (simp add: accepted_def)
    with None cases show ?thesis by simp
  next
    case (Some x)
    show ?thesis
    proof (cases x)
      case (Inl err)
      with Some have "accepted False (excludeEdits e) = None" by (simp add: accepted_def)
      with Some Inl cases [of err] show ?thesis by simp
    next
      case (Inr X)
      with Some have acc: "accepted False (excludeEdits e) = Some X" by (simp add: accepted_def)
      show ?thesis
      proof (cases "X = []")
        case True
        with Some Inr cases i acc show ?thesis by (simp add: freshNames_def)
      next
        case False
        let ?m = "(manifest c)\<lparr>excludedRepositories :=
                     sort (excludedRepositories (manifest c) @ map name X)\<rparr>"
        have w: "written (fst (addNewExcludedRepos e c)) = [?m]"
          and r: "snd (addNewExcludedRepos e c) =
              Some (if excludeWriteOk e then Inr (c\<lparr>manifest := ?m\<rparr>) else Inl WriteError)"
          using Some Inr False cases [of _ X] by simp_all
        have "manifestInvariant ?m \<longleftrightarrow> freshNames (map name X) (manifest c)"
          using i by (rule invariant_after_exclusion)
        with w r True acc show ?thesis by auto
      qed
    qed
  qed
qed

text \<open>One more stage at the end of a pipeline.\<close>

lemma pipeline_snoc_keeps:
  assumes before: "list_all I (written (fst (pipeline fs c0)))"
      "\<forall>c. snd (pipeline fs c0) = Some (Inr c) \<longrightarrow> I (manifest c)"
    and stage: "\<And>c. snd (pipeline fs c0) = Some (Inr c) \<Longrightarrow> I (manifest c) \<Longrightarrow>
      list_all I (written (fst (f c))) \<and> (\<forall>c'. snd (f c) = Some (Inr c') \<longrightarrow> I (manifest c'))"
  shows "list_all I (written (fst (pipeline (fs @ [f]) c0))) \<and>
         (\<forall>c. snd (pipeline (fs @ [f]) c0) = Some (Inr c) \<longrightarrow> I (manifest c))"
proof (cases "\<exists>c. snd (pipeline fs c0) = Some (Inr c)")
  case True
  then obtain c where c: "snd (pipeline fs c0) = Some (Inr c)" by blast
  then have p: "pipeline fs c0 = (fst (pipeline fs c0), Some (Inr c))"
    by (metis prod.collapse)
  have "pipeline (fs @ [f]) c0 = (fst (pipeline fs c0) @ fst (pipeline [f] c), snd (pipeline [f] c))"
    using p by (rule pipeline_append)
  then have run: "pipeline (fs @ [f]) c0 = (fst (pipeline fs c0) @ fst (f c), snd (f c))"
    unfolding pipeline_single .
  from before(2) c have "I (manifest c)" by blast
  from stage [OF c this] before(1) show ?thesis
    unfolding run by (simp add: written_append)
next
  case False
  then have "pipeline (fs @ [f]) c0 = pipeline fs c0"
    by (intro pipeline_append_stop) simp
  with before show ?thesis by simp
qed

text \<open>
  Claim C8, as amended. Every stage, started on a manifest that satisfies the invariant,
  writes only manifests that satisfy it and hands on such a manifest: the stages that do
  not edit always; the inclusion stage and the exclusion stage exactly when the names of
  the entries accepted from the edited form are fresh for the manifest at that moment
  (pairwise different, and none of them in \<open>repositories\<close> or \<open>excludedRepositories\<close> as
  they are when the stage runs: a name that the removal stage has just removed may come
  back, a name that the inclusion stage has just added may not be excluded). So when the
  manifest satisfies the invariant at the start and the accepted names are fresh at both
  edit stages, every manifest that the run writes satisfies the invariant, and so does the
  manifest in memory when the run ends without error.
\<close>

theorem curation_keeps_invariant:
  "(manifestInvariant m \<and>
    (\<forall>c A. atInclusionStage e m = Some c \<and> addNewRepos c \<and> accepted True (includeEdits e) = Some A
       \<longrightarrow> freshNames (map name A) (manifest c)) \<and>
    (\<forall>c X. atExclusionStage e m = Some c \<and> addNewExcludedReposFlag c
              \<and> accepted False (excludeEdits e) = Some X
       \<longrightarrow> freshNames (map name X) (manifest c))
    \<longrightarrow> list_all manifestInvariant (written (fst (do_update_manifest e m))) \<and>
        (\<forall>c. snd (do_update_manifest e m) = Some (Inr c) \<longrightarrow> manifestInvariant (manifest c))) \<and>
   (manifestInvariant (manifest c) \<and>
    f \<in> {fetchCandidateRepos e, categorizeRepos, removeGoneRepos e, confirmAddNewRepos e,
         confirmAddNewExcludedRepos e}
    \<longrightarrow> list_all manifestInvariant (written (fst (f c))) \<and>
        (\<forall>c'. snd (f c) = Some (Inr c') \<longrightarrow> manifestInvariant (manifest c'))) \<and>
   (manifestInvariant (manifest c) \<longrightarrow>
      ((list_all manifestInvariant (written (fst (addNewIncludedRepos e c))) \<and>
        (\<forall>c'. snd (addNewIncludedRepos e c) = Some (Inr c') \<longrightarrow> manifestInvariant (manifest c')))
       \<longleftrightarrow>
       (\<forall>A. addNewRepos c \<and> accepted True (includeEdits e) = Some A
             \<longrightarrow> freshNames (map name A) (manifest c)))) \<and>
   (manifestInvariant (manifest c) \<longrightarrow>
      ((list_all manifestInvariant (written (fst (addNewExcludedRepos e c))) \<and>
        (\<forall>c'. snd (addNewExcludedRepos e c) = Some (Inr c') \<longrightarrow> manifestInvariant (manifest c')))
       \<longleftrightarrow>
       (\<forall>X. addNewExcludedReposFlag c \<and> accepted False (excludeEdits e) = Some X
             \<longrightarrow> freshNames (map name X) (manifest c))))"
proof (intro conjI impI)
  assume a: "manifestInvariant m \<and>
    (\<forall>c A. atInclusionStage e m = Some c \<and> addNewRepos c \<and> accepted True (includeEdits e) = Some A
       \<longrightarrow> freshNames (map name A) (manifest c)) \<and>
    (\<forall>c X. atExclusionStage e m = Some c \<and> addNewExcludedReposFlag c
              \<and> accepted False (excludeEdits e) = Some X
       \<longrightarrow> freshNames (map name X) (manifest c))"
  let ?I = manifestInvariant
  let ?c0 = "initialCtx m"
  let ?f0 = "fetchCandidateRepos e" and ?f1 = categorizeRepos and ?f2 = "removeGoneRepos e"
  let ?f3 = "confirmAddNewRepos e" and ?f4 = "addNewIncludedRepos e"
  let ?f5 = "confirmAddNewExcludedRepos e" and ?f6 = "addNewExcludedRepos e"
  from a have inv: "?I m" by simp
  have s0: "list_all ?I (written (fst (pipeline [] ?c0))) \<and>
      (\<forall>c. snd (pipeline [] ?c0) = Some (Inr c) \<longrightarrow> ?I (manifest c))"
    using inv by (simp add: written_def initialCtx_def)
  have s1: "list_all ?I (written (fst (pipeline ([] @ [?f0]) ?c0))) \<and>
      (\<forall>c. snd (pipeline ([] @ [?f0]) ?c0) = Some (Inr c) \<longrightarrow> ?I (manifest c))"
    using s0 keeps_fetch by (intro pipeline_snoc_keeps) blast+
  have s2: "list_all ?I (written (fst (pipeline ([?f0] @ [?f1]) ?c0))) \<and>
      (\<forall>c. snd (pipeline ([?f0] @ [?f1]) ?c0) = Some (Inr c) \<longrightarrow> ?I (manifest c))"
    using s1 keeps_categorize by (intro pipeline_snoc_keeps) (simp, simp, blast)
  have s3: "list_all ?I (written (fst (pipeline ([?f0, ?f1] @ [?f2]) ?c0))) \<and>
      (\<forall>c. snd (pipeline ([?f0, ?f1] @ [?f2]) ?c0) = Some (Inr c) \<longrightarrow> ?I (manifest c))"
    using s2 keeps_remove by (intro pipeline_snoc_keeps) (simp, simp, blast)
  have s4: "list_all ?I (written (fst (pipeline ([?f0, ?f1, ?f2] @ [?f3]) ?c0))) \<and>
      (\<forall>c. snd (pipeline ([?f0, ?f1, ?f2] @ [?f3]) ?c0) = Some (Inr c) \<longrightarrow> ?I (manifest c))"
    using s3 keeps_confirm by (intro pipeline_snoc_keeps) (simp, simp, blast)
  have s5: "list_all ?I (written (fst (pipeline ([?f0, ?f1, ?f2, ?f3] @ [?f4]) ?c0))) \<and>
      (\<forall>c. snd (pipeline ([?f0, ?f1, ?f2, ?f3] @ [?f4]) ?c0) = Some (Inr c) \<longrightarrow> ?I (manifest c))"
  proof (rule pipeline_snoc_keeps)
    show "list_all ?I (written (fst (pipeline [?f0, ?f1, ?f2, ?f3] ?c0)))" using s4 by simp
    show "\<forall>c. snd (pipeline [?f0, ?f1, ?f2, ?f3] ?c0) = Some (Inr c) \<longrightarrow> ?I (manifest c)"
      using s4 by simp
  next
    fix c assume c: "snd (pipeline [?f0, ?f1, ?f2, ?f3] ?c0) = Some (Inr c)" and i: "?I (manifest c)"
    from c have "atInclusionStage e m = Some c" by (simp add: atInclusionStage_def)
    with a have "\<forall>A. addNewRepos c \<and> accepted True (includeEdits e) = Some A
               \<longrightarrow> freshNames (map name A) (manifest c)"
      by blast
    then show "list_all ?I (written (fst (?f4 c))) \<and>
        (\<forall>c'. snd (?f4 c) = Some (Inr c') \<longrightarrow> ?I (manifest c'))"
      using keeps_inclusion [OF i, of e] by blast
  qed
  have s6: "list_all ?I (written (fst (pipeline ([?f0, ?f1, ?f2, ?f3, ?f4] @ [?f5]) ?c0))) \<and>
      (\<forall>c. snd (pipeline ([?f0, ?f1, ?f2, ?f3, ?f4] @ [?f5]) ?c0) = Some (Inr c) \<longrightarrow> ?I (manifest c))"
    using s5 keeps_confirm_exclusion by (intro pipeline_snoc_keeps) (simp, simp, blast)
  have s7: "list_all ?I (written (fst (pipeline ([?f0, ?f1, ?f2, ?f3, ?f4, ?f5] @ [?f6]) ?c0))) \<and>
      (\<forall>c. snd (pipeline ([?f0, ?f1, ?f2, ?f3, ?f4, ?f5] @ [?f6]) ?c0) = Some (Inr c) \<longrightarrow> ?I (manifest c))"
  proof (rule pipeline_snoc_keeps)
    show "list_all ?I (written (fst (pipeline [?f0, ?f1, ?f2, ?f3, ?f4, ?f5] ?c0)))" using s6 by simp
    show "\<forall>c. snd (pipeline [?f0, ?f1, ?f2, ?f3, ?f4, ?f5] ?c0) = Some (Inr c) \<longrightarrow> ?I (manifest c)"
      using s6 by simp
  next
    fix c assume c: "snd (pipeline [?f0, ?f1, ?f2, ?f3, ?f4, ?f5] ?c0) = Some (Inr c)"
      and i: "?I (manifest c)"
    from c have "atExclusionStage e m = Some c" by (simp add: atExclusionStage_def)
    with a have "\<forall>X. addNewExcludedReposFlag c \<and> accepted False (excludeEdits e) = Some X
               \<longrightarrow> freshNames (map name X) (manifest c)"
      by blast
    then show "list_all ?I (written (fst (?f6 c))) \<and>
        (\<forall>c'. snd (?f6 c) = Some (Inr c') \<longrightarrow> ?I (manifest c'))"
      using keeps_exclusion [OF i, of e] by blast
  qed
  have run: "do_update_manifest e m = pipeline ([?f0, ?f1, ?f2, ?f3, ?f4, ?f5] @ [?f6]) ?c0"
    by (simp add: do_update_manifest_def curationStages_def)
  from s7 show "list_all ?I (written (fst (do_update_manifest e m)))"
    unfolding run by blast
  from s7 show "\<forall>c. snd (do_update_manifest e m) = Some (Inr c) \<longrightarrow> ?I (manifest c)"
    unfolding run by blast
next
  assume a: "manifestInvariant (manifest c) \<and>
    f \<in> {fetchCandidateRepos e, categorizeRepos, removeGoneRepos e, confirmAddNewRepos e,
         confirmAddNewExcludedRepos e}"
  then have i: "manifestInvariant (manifest c)" by simp
  from a have "f = fetchCandidateRepos e \<or> f = categorizeRepos \<or> f = removeGoneRepos e
      \<or> f = confirmAddNewRepos e \<or> f = confirmAddNewExcludedRepos e"
    by blast
  then have k: "list_all manifestInvariant (written (fst (f c))) \<and>
        (\<forall>c'. snd (f c) = Some (Inr c') \<longrightarrow> manifestInvariant (manifest c'))"
    using keeps_fetch [OF i, of e] keeps_categorize [OF i] keeps_remove [OF i, of e]
      keeps_confirm [OF i, of e] keeps_confirm_exclusion [OF i, of e]
    by (elim disjE) blast+
  from k show "list_all manifestInvariant (written (fst (f c)))" by blast
  from k show "\<forall>c'. snd (f c) = Some (Inr c') \<longrightarrow> manifestInvariant (manifest c')" by blast
next
  assume "manifestInvariant (manifest c)"
  then show "(list_all manifestInvariant (written (fst (addNewIncludedRepos e c))) \<and>
        (\<forall>c'. snd (addNewIncludedRepos e c) = Some (Inr c') \<longrightarrow> manifestInvariant (manifest c')))
       \<longleftrightarrow>
       (\<forall>A. addNewRepos c \<and> accepted True (includeEdits e) = Some A
             \<longrightarrow> freshNames (map name A) (manifest c))"
    by (rule keeps_inclusion)
next
  assume "manifestInvariant (manifest c)"
  then show "(list_all manifestInvariant (written (fst (addNewExcludedRepos e c))) \<and>
        (\<forall>c'. snd (addNewExcludedRepos e c) = Some (Inr c') \<longrightarrow> manifestInvariant (manifest c')))
       \<longleftrightarrow>
       (\<forall>X. addNewExcludedReposFlag c \<and> accepted False (excludeEdits e) = Some X
             \<longrightarrow> freshNames (map name X) (manifest c))"
    by (rule keeps_exclusion)
qed

text \<open>
  A session in which the removal stage removes \<open>b\<close> and \<open>x\<close>, the user then types the URL
  of \<open>b\<close> into the inclusion form, and excludes \<open>e\<close>: \<open>b\<close> is fresh again when the form is
  accepted, and all three written manifests satisfy the invariant.
\<close>

theorem curation_keeps_invariant_witness:
  "manifestInvariant exampleManifest \<and>
   map (\<lambda>m. (map name (repositories m), excludedRepositories m))
     (written (fst (do_update_manifest
        (exampleEnv\<lparr>includeEdits := [(EditedText (JOYENT_REPO_BASE_URL @ ''b''), True)]\<rparr>)
        exampleManifest)))
     = [([''a''], []), ([''a'', ''b''], []), ([''a'', ''b''], [''e''])] \<and>
   list_all manifestInvariant
     (written (fst (do_update_manifest
        (exampleEnv\<lparr>includeEdits := [(EditedText (JOYENT_REPO_BASE_URL @ ''b''), True)]\<rparr>)
        exampleManifest)))"
proof -
  let ?e = "exampleEnv\<lparr>includeEdits := [(EditedText (JOYENT_REPO_BASE_URL @ ''b''), True)]\<rparr>"
  have i: "manifestInvariant exampleManifest"
    by (simp add: manifestInvariant_def exampleManifest_def)
  have inc: "\<forall>c A. atInclusionStage ?e exampleManifest = Some c \<and> addNewRepos c
        \<and> accepted True (includeEdits ?e) = Some A
       \<longrightarrow> freshNames (map name A) (manifest c)"
    by (simp add: atInclusionStage_def accepted_def freshNames_def session_eval loop_eval)
  have exc: "\<forall>c X. atExclusionStage ?e exampleManifest = Some c \<and> addNewExcludedReposFlag c
        \<and> accepted False (excludeEdits ?e) = Some X
       \<longrightarrow> freshNames (map name X) (manifest c)"
    by (simp add: atExclusionStage_def accepted_def freshNames_def session_eval loop_eval)
  have w: "map (\<lambda>m. (map name (repositories m), excludedRepositories m))
     (written (fst (do_update_manifest ?e exampleManifest)))
     = [([''a''], []), ([''a'', ''b''], []), ([''a'', ''b''], [''e''])]"
    by (simp add: session_eval loop_eval)
  have "list_all manifestInvariant (written (fst (do_update_manifest ?e exampleManifest)))"
    using curation_keeps_invariant [of exampleManifest ?e] i inc exc by blast
  with i w show ?thesis by simp
qed

text \<open>
  The claim as stated fails: the parser accepts a form with the same URL twice, and a form
  with the URL of a tracked repo. The inclusion stage then writes \<open>repositories\<close> with the
  name \<open>c\<close> twice; the exclusion stage writes \<open>excludedRepositories\<close> with the tracked
  name \<open>a\<close>.
\<close>

theorem edited_form_can_break_invariant:
  "manifestInvariant exampleManifest \<and>
   parseReposForm (JOYENT_REPO_BASE_URL @ ''c'' @ [CHR 0x0A] @ JOYENT_REPO_BASE_URL @ ''c'') True
     = Inr [\<lparr>name = ''c'', labels = None\<rparr>, \<lparr>name = ''c'', labels = None\<rparr>] \<and>
   map (\<lambda>m. (map name (repositories m), excludedRepositories m))
     (written (fst (do_update_manifest
        (exampleEnv\<lparr>includeEdits :=
           [(EditedText (JOYENT_REPO_BASE_URL @ ''c'' @ [CHR 0x0A] @ JOYENT_REPO_BASE_URL @ ''c''), True)],
          excludeEdits := [(EditedText (JOYENT_REPO_BASE_URL @ ''a''), True)]\<rparr>)
        exampleManifest)))
     = [([''a''], []), ([''a'', ''c'', ''c''], []), ([''a'', ''c'', ''c''], [''a''])] \<and>
   \<not> list_all manifestInvariant
     (written (fst (do_update_manifest
        (exampleEnv\<lparr>includeEdits :=
           [(EditedText (JOYENT_REPO_BASE_URL @ ''c'' @ [CHR 0x0A] @ JOYENT_REPO_BASE_URL @ ''c''), True)],
          excludeEdits := [(EditedText (JOYENT_REPO_BASE_URL @ ''a''), True)]\<rparr>)
        exampleManifest)))"
  by (simp add: session_eval loop_eval manifestInvariant_def)

end
